theory Spec2Isabelle
  imports Complex_Main "HOL-Library.Word"
begin

section \<open>Element domains\<close>

text \<open>
  The element types a tensor can hold (\<open>c10::ScalarType\<close>; the source names them
  \<open>kLong\<close>, \<open>ScalarType::Bool\<close>, \<open>at::ScalarType::Byte\<close>, ...). The quantised types
  play no part in this file.
\<close>

datatype ScalarType =
  kByte | kChar | kShort | kInt | kLong | kHalf | kFloat | kDouble
  | kComplexHalf | kComplexFloat | kComplexDouble | kBool | kBFloat16

text \<open>
  An IEEE-754 value, as far as comparing and copying can tell: a NaN, an infinity or a
  finite number. The kernels never compute with their elements, so the precision of the
  format is immaterial and every finite value is the real number it denotes; the two
  zeros, which every IEEE comparison identifies, are one value.
\<close>

datatype fp = NaN | NegInf | Finite real | PosInf

text \<open>
  One element of a buffer. Every integral type is read as the integer it denotes (the
  kernels only compare and copy). \<open>Indeterminate\<close> is what a read outside the
  allocation, or of memory never written, yields.
\<close>

datatype scalar =
  IntegralV int | BoolV bool | FloatV fp | ComplexV fp fp | Indeterminate

fun typed :: "ScalarType \<Rightarrow> scalar \<Rightarrow> bool" where
  "typed st (IntegralV _) = (st \<in> {kByte, kChar, kShort, kInt, kLong})"
| "typed st (BoolV _) = (st = kBool)"
| "typed st (FloatV _) = (st \<in> {kHalf, kFloat, kDouble, kBFloat16})"
| "typed st (ComplexV _ _) = (st \<in> {kComplexHalf, kComplexFloat, kComplexDouble})"
| "typed st Indeterminate = False"

subsection \<open>IEEE comparisons\<close>

text \<open>\<open>a <= b\<close>, \<open>a >= b\<close> and \<open>a == b\<close> on floating values: false as soon as an operand is NaN.\<close>

fun fp_le :: "fp \<Rightarrow> fp \<Rightarrow> bool" where
  "fp_le NaN _ = False"
| "fp_le _ NaN = False"
| "fp_le NegInf _ = True"
| "fp_le _ PosInf = True"
| "fp_le (Finite x) (Finite y) = (x \<le> y)"
| "fp_le _ _ = False"

fun fp_ge :: "fp \<Rightarrow> fp \<Rightarrow> bool" where
  "fp_ge NaN _ = False"
| "fp_ge _ NaN = False"
| "fp_ge PosInf _ = True"
| "fp_ge _ NegInf = True"
| "fp_ge (Finite x) (Finite y) = (x \<ge> y)"
| "fp_ge _ _ = False"

fun fp_eq :: "fp \<Rightarrow> fp \<Rightarrow> bool" where
  "fp_eq NaN _ = False"
| "fp_eq _ NaN = False"
| "fp_eq a b = (a = b)"

fun fp_neg :: "fp \<Rightarrow> fp" where
  "fp_neg NaN = NaN"
| "fp_neg NegInf = PosInf"
| "fp_neg (Finite x) = Finite (- x)"
| "fp_neg PosInf = NegInf"

text \<open>
  A key is what the kernels compare, a value of \<open>value_t\<close>: an integer, a boolean or a
  floating value. \<open>NoKey\<close> is the key of no proper element.
\<close>

datatype key = IntegralK int | BoolK bool | FloatK fp | NoKey

text \<open>
  \<open>std::abs\<close> of a complex number is \<open>hypot(re, im)\<close>, a value of the component type:
  +infinity as soon as one component is infinite, even when the other is NaN (ISO C,
  F.10.4.3 and G.6), NaN when a component is NaN otherwise. For two finite components
  it is the square root of \<open>re * re + im * im\<close> as the platform's library rounds it to
  the component type: a finite value, or +infinity when the result overflows. Neither
  the source nor the spec fixes that rounding, and it decides which of two close moduli
  are equal keys: it is the parameter \<open>hypot\<close> of the model, \<open>None\<close> standing for the
  overflow.
\<close>

fun std_abs :: "(real \<Rightarrow> real \<Rightarrow> real option) \<Rightarrow> fp \<Rightarrow> fp \<Rightarrow> fp" where
  "std_abs hypot PosInf _ = PosInf"
| "std_abs hypot NegInf _ = PosInf"
| "std_abs hypot _ PosInf = PosInf"
| "std_abs hypot _ NegInf = PosInf"
| "std_abs hypot NaN _ = NaN"
| "std_abs hypot _ NaN = NaN"
| "std_abs hypot (Finite x) (Finite y) = (case hypot x y of None \<Rightarrow> PosInf | Some m \<Rightarrow> Finite m)"

text \<open>
  Modelled from the spec: \<open>zabs\<close> is declared in \<open>ATen/native/cpu/zmath.h\<close>, which is not
  among the sources. The ordering key is the element itself for the real-valued domains
  and the magnitude (modulus), a value of the component type, for the complex domains.
\<close>

fun zabs :: "(real \<Rightarrow> real \<Rightarrow> real option) \<Rightarrow> scalar \<Rightarrow> key" where
  "zabs hypot (IntegralV z) = IntegralK z"
| "zabs hypot (BoolV z) = BoolK z"
| "zabs hypot (FloatV z) = FloatK z"
| "zabs hypot (ComplexV re im) = FloatK (std_abs hypot re im)"
| "zabs hypot Indeterminate = NoKey"

text \<open>
  Modelled from the spec: \<open>_isnan\<close> is declared in \<open>ATen/NumericUtils.h\<close>, which is not
  among the sources. It is never true for the integer domains (and \<open>bool\<close> is an
  integral type); a floating value is tested with \<open>std::isnan\<close>, a complex value is NaN
  when its real or its imaginary part is.
\<close>

fun isnan :: "scalar \<Rightarrow> bool" where
  "isnan (FloatV x) = (x = NaN)"
| "isnan (ComplexV re im) = (re = NaN \<or> im = NaN)"
| "isnan _ = False"

text \<open>
  \<open>>=\<close> and \<open><=\<close> on two keys of one instantiation: integers, booleans
  (\<open>false < true\<close>, by integral promotion) or floating values. Keys of two different
  kinds never meet in one instantiation of the kernel; the comparison is false there.
\<close>

fun key_ge :: "key \<Rightarrow> key \<Rightarrow> bool" where
  "key_ge (IntegralK a) (IntegralK b) = (a \<ge> b)"
| "key_ge (BoolK a) (BoolK b) = (a \<ge> b)"
| "key_ge (FloatK a) (FloatK b) = fp_ge a b"
| "key_ge _ _ = False"

fun key_le :: "key \<Rightarrow> key \<Rightarrow> bool" where
  "key_le (IntegralK a) (IntegralK b) = (a \<le> b)"
| "key_le (BoolK a) (BoolK b) = (a \<le> b)"
| "key_le (FloatK a) (FloatK b) = fp_le a b"
| "key_le _ _ = False"

fun key_isnan :: "key \<Rightarrow> bool" where
  "key_isnan (FloatK a) = (a = NaN)"
| "key_isnan _ = False"

section \<open>The scan of one lane\<close>

text \<open>
  The body of the callback that \<open>min_kernel_impl\<close> hands to \<open>compare_base_kernel\<close>.
  \<open>self_data\<close> is the lane's base pointer, read at the element offsets
  \<open>i * self_dim_stride\<close>; the loop leaves (\<open>break\<close>) as soon as it has stored a NaN.
  The result is the pair (\<open>min_number\<close>, \<open>index\<close>) the callback then writes through
  \<open>result_data\<close> and \<open>indice_data\<close>.
\<close>

function min_loop ::
  "(real \<Rightarrow> real \<Rightarrow> real option) \<Rightarrow> nat \<Rightarrow> (nat \<Rightarrow> scalar) \<Rightarrow> nat \<Rightarrow> nat \<Rightarrow> scalar \<Rightarrow> nat
     \<Rightarrow> scalar \<times> nat" where
  "min_loop hypot self_dim_size self_data self_dim_stride i min_number index =
     (if i < self_dim_size then
        (let value = self_data (i * self_dim_stride) in
         if \<not> key_ge (zabs hypot value) (zabs hypot min_number) then
           (if isnan value then (value, i)
            else min_loop hypot self_dim_size self_data self_dim_stride (i + 1) value i)
         else min_loop hypot self_dim_size self_data self_dim_stride (i + 1) min_number index)
      else (min_number, index))"
  by pat_completeness auto
termination
  by (relation "measure (\<lambda>(h, n, d, s, i, m, k). n - i)") auto

definition min_scan ::
  "(real \<Rightarrow> real \<Rightarrow> real option) \<Rightarrow> nat \<Rightarrow> (nat \<Rightarrow> scalar) \<Rightarrow> nat \<Rightarrow> scalar \<times> nat" where
  "min_scan hypot self_dim_size self_data self_dim_stride =
     min_loop hypot self_dim_size self_data self_dim_stride 0 (self_data 0) 0"

function max_loop ::
  "(real \<Rightarrow> real \<Rightarrow> real option) \<Rightarrow> nat \<Rightarrow> (nat \<Rightarrow> scalar) \<Rightarrow> nat \<Rightarrow> nat \<Rightarrow> scalar \<Rightarrow> nat
     \<Rightarrow> scalar \<times> nat" where
  "max_loop hypot self_dim_size self_data self_dim_stride i max_number index =
     (if i < self_dim_size then
        (let value = self_data (i * self_dim_stride) in
         if \<not> key_le (zabs hypot value) (zabs hypot max_number) then
           (if isnan value then (value, i)
            else max_loop hypot self_dim_size self_data self_dim_stride (i + 1) value i)
         else max_loop hypot self_dim_size self_data self_dim_stride (i + 1) max_number index)
      else (max_number, index))"
  by pat_completeness auto
termination
  by (relation "measure (\<lambda>(h, n, d, s, i, m, k). n - i)") auto

definition max_scan ::
  "(real \<Rightarrow> real \<Rightarrow> real option) \<Rightarrow> nat \<Rightarrow> (nat \<Rightarrow> scalar) \<Rightarrow> nat \<Rightarrow> scalar \<times> nat" where
  "max_scan hypot self_dim_size self_data self_dim_stride =
     max_loop hypot self_dim_size self_data self_dim_stride 0 (self_data 0) 0"

section \<open>Tensors\<close>

text \<open>
  A tensor: its element type, its shape, one stride per dimension (in elements) and its
  backing storage (storage offset zero). Extents, strides, offsets and indices are
  non-negative values of \<open>int64_t\<close> in the source; for a tensor that fits in memory
  none of their sums and products leaves that type, and they are natural numbers here.
\<close>

record tensor =
  scalar_type :: ScalarType
  sizes :: "nat list"
  strides :: "nat list"
  storage :: "scalar list"

definition ndimension :: "tensor \<Rightarrow> nat" where
  "ndimension t = length (sizes t)"

text \<open>What a call can raise.\<close>

datatype error = InvalidAxis | TypeMismatch | NotImplemented

text \<open>A pointer dereference: a read outside the allocation yields no proper element.\<close>

definition load :: "scalar list \<Rightarrow> nat \<Rightarrow> scalar" where
  "load mem p = (if p < length mem then mem ! p else Indeterminate)"

text \<open>
  Modelled from the spec: \<open>maybe_wrap_dim\<close> (\<open>c10/core/WrapDimMinimal.h\<close>) is not among
  the sources; it is the axis-index normalization with negative-axis wrap-around of
  section 1, raising \<open>InvalidAxis\<close> when the axis is out of range. A tensor of rank 0 is
  addressed as if it had one dimension.
\<close>

definition maybe_wrap_dim :: "int \<Rightarrow> nat \<Rightarrow> error + nat" where
  "maybe_wrap_dim d dim_post_expr =
     (let n = (if dim_post_expr = 0 then 1 else int dim_post_expr) in
      if d < - n \<or> d > n - 1 then Inl InvalidAxis
      else Inr (nat (if d < 0 then d + n else d)))"

text \<open>
  Modelled from the spec: \<open>ensure_nonempty_vec\<close> (\<open>ATen/native/ReduceOpsUtils.h\<close>) is not
  among the sources. Lines 23-24 assign to the element \<open>dim\<close> of its result, for any
  input the kernel accepts: it is the shape, that of a one-element vector for a tensor
  of rank 0.
\<close>

definition ensure_nonempty_vec :: "nat list \<Rightarrow> nat list" where
  "ensure_nonempty_vec vec = (if vec = [] then [1] else vec)"

text \<open>
  Modelled from the spec: \<open>ensure_nonempty_size\<close> (\<open>ATen/native/ReduceOpsUtils.h\<close>) is
  not among the sources. It is the extent along the axis, which line 79 keeps as the
  bound of the scan, a tensor of rank 0 counting as a one-element vector as for its two
  siblings. It tests nothing: section 3 leaves the guard against a zero-length axis to
  the caller.
\<close>

definition ensure_nonempty_size :: "tensor \<Rightarrow> nat \<Rightarrow> nat" where
  "ensure_nonempty_size t d = (if ndimension t = 0 then 1 else sizes t ! d)"

text \<open>
  Modelled from the spec: \<open>ensure_nonempty_stride\<close> (\<open>ATen/native/ReduceOpsUtils.h\<close>) is
  not among the sources. It is the axis stride of the glossary, the step in elements
  between consecutive positions along the axis; 1 for a tensor of rank 0.
\<close>

definition ensure_nonempty_stride :: "tensor \<Rightarrow> nat \<Rightarrow> nat" where
  "ensure_nonempty_stride t d = (if ndimension t = 0 then 1 else strides t ! d)"

text \<open>
  The strides of a freshly sized buffer: row-major, an extent of zero counting as one.
\<close>

fun contiguous_strides :: "nat list \<Rightarrow> nat list" where
  "contiguous_strides [] = []"
| "contiguous_strides (n # ns) = prod_list (map (max 1) ns) # contiguous_strides ns"

text \<open>
  Modelled from the spec: the \<open>Tensor\<close> method \<open>unsqueeze_\<close> is not among the sources; it
  is the \<open>unsqueeze(buffer, axis)\<close> of section 6, which inserts a size-1 dimension. It
  needs \<open>d \<le> ndimension t\<close>, which its caller tests. (No name ends with an underscore
  here.)
\<close>

definition unsqueeze :: "tensor \<Rightarrow> nat \<Rightarrow> tensor" where
  "unsqueeze t d =
     t\<lparr>sizes := take d (sizes t) @ 1 # drop d (sizes t),
       strides := take d (strides t)
          @ (if d \<ge> ndimension t then 1 else sizes t ! d * strides t ! d)
          # drop d (strides t)\<rparr>"

text \<open>
  Modelled from the spec: the \<open>Tensor\<close> method \<open>resize_\<close> is not among the sources; it is
  the \<open>resize(buffer, shape)\<close> of section 6. A buffer that has the shape already is left
  as it is; another one gets the shape, row-major strides and, where its storage is too
  small, new elements, whose contents are undefined until the scan writes them.
\<close>

definition resize :: "tensor \<Rightarrow> nat list \<Rightarrow> tensor" where
  "resize t new_size =
     (if sizes t = new_size then t
      else t\<lparr>sizes := new_size, strides := contiguous_strides new_size,
             storage := storage t
                @ replicate (prod_list new_size - length (storage t)) Indeterminate\<rparr>)"

text \<open>
  Modelled from the spec: the \<open>Tensor\<close> method \<open>squeeze_\<close> is not among the sources; it is
  the \<open>squeeze(buffer, axis)\<close> of section 6, which removes a size-1 dimension (and
  leaves a dimension of another extent).
\<close>

definition squeeze :: "tensor \<Rightarrow> nat \<Rightarrow> tensor" where
  "squeeze t d =
     (if d < ndimension t \<and> sizes t ! d = 1
      then t\<lparr>sizes := take d (sizes t) @ drop (d + 1) (sizes t),
             strides := take d (strides t) @ drop (d + 1) (strides t)\<rparr>
      else t)"

section \<open>The strided iteration engine\<close>

text \<open>
  Modelled from the spec: \<open>TensorIteratorConfig\<close> and \<open>TensorIterator\<close>
  (\<open>ATen/native/TensorIterator.h\<close>) are not among the sources. Section 6: \<open>build_plan\<close>
  declares a static iteration shape, with one axis marked as of size 1 whatever the
  extent of the buffer along it, and the buffers are registered in a fixed order.
\<close>

record TensorIterator =
  shape :: "nat list"
  operands :: "tensor list"

text \<open>
  Modelled from the spec: \<open>declare_static_shape(shape, squash_dim)\<close> is not among the
  sources; it is the shape with the squashed axis as of size 1.
\<close>

definition declare_static_shape :: "nat list \<Rightarrow> nat \<Rightarrow> nat list" where
  "declare_static_shape shp squash_dim = shp[squash_dim := 1]"

text \<open>
  Modelled from the spec: \<open>add_output\<close>, \<open>add_input\<close> and \<open>build\<close> are not among the
  sources; the plan is the shape and the operands in the order of their registration.
\<close>

definition build :: "nat list \<Rightarrow> tensor list \<Rightarrow> TensorIterator" where
  "build shp ops = \<lparr>shape = shp, operands = ops\<rparr>"

text \<open>
  Modelled from the spec: the engine computes the base offset of each lane in each
  buffer from the buffer's strides; an operand's stride is 0 along a dimension it is
  broadcast over. Offsets and strides count elements here, bytes in the source.
\<close>

definition operand_strides :: "nat list \<Rightarrow> tensor \<Rightarrow> nat list" where
  "operand_strides shp t =
     map (\<lambda>k. if k < ndimension t \<and> k < length (strides t)
                  \<and> \<not> (sizes t ! k = 1 \<and> shp ! k \<noteq> 1)
               then strides t ! k else 0) [0..<length shp]"

text \<open>
  The indices of a shape, in row-major order, and the offset of an index in a buffer of
  given strides.
\<close>

fun multi_indices :: "nat list \<Rightarrow> nat list list" where
  "multi_indices [] = [[]]"
| "multi_indices (n # ns) = concat (map (\<lambda>i. map ((#) i) (multi_indices ns)) [0..<n])"

definition offset_of :: "nat list \<Rightarrow> nat list \<Rightarrow> nat" where
  "offset_of strds idx = sum_list (map2 (*) idx strds)"

text \<open>
  Modelled from the spec: \<open>for_each\<close> is not among the sources. Section 6: it invokes the
  callback with the buffers' pointers, their strides and a count of lanes, for each
  chunk of lanes; a chunk is one run along the innermost dimension here. The lanes do
  not overlap, so that running the chunks one after the other is running them in
  parallel (section 5).
\<close>

definition for_each ::
  "TensorIterator \<Rightarrow> (nat list \<Rightarrow> nat list \<Rightarrow> nat \<Rightarrow> 's \<Rightarrow> 's) \<Rightarrow> 's \<Rightarrow> 's" where
  "for_each iter lp s =
     (let strds = map (operand_strides (shape iter)) (operands iter) in
      if shape iter = [] then lp (map (\<lambda>_. 0) strds) (map (\<lambda>_. 0) strds) 1 s
      else fold (\<lambda>idx. lp (map (\<lambda>st. offset_of (butlast st) idx) strds)
                          (map last strds) (last (shape iter)))
             (multi_indices (butlast (shape iter))) s)"

section \<open>The dimensional reduction engine\<close>

text \<open>
  A comparator is the callback \<open>f\<close>: from the lane's base pointer into the input and the
  input's stride along the axis, the value and the index it writes through
  \<open>result_data\<close> and \<open>indice_data\<close>.
\<close>

type_synonym comparator = "(nat \<Rightarrow> scalar) \<Rightarrow> nat \<Rightarrow> scalar \<times> nat"

text \<open>
  A call \<open>f(result_data, indice_data, self_data, self_dim_stride)\<close>: the comparator
  reads the input from \<open>self_data\<close> on and the call writes its two results through the
  other two pointers. The state is the pair of output tensors; \<open>self_mem\<close> is the
  storage of the input.
\<close>

definition invoke ::
  "comparator \<Rightarrow> scalar list \<Rightarrow> nat \<Rightarrow> nat \<Rightarrow> nat \<Rightarrow> nat
     \<Rightarrow> tensor \<times> tensor \<Rightarrow> tensor \<times> tensor" where
  "invoke f self_mem self_dim_stride result_data indice_data self_data outs =
     (case outs of (result, indices) \<Rightarrow>
      case f (\<lambda>j. load self_mem (self_data + j)) self_dim_stride of (v, k) \<Rightarrow>
        (result\<lparr>storage := (storage result)[result_data := v]\<rparr>,
         indices\<lparr>storage := (storage indices)[indice_data := IntegralV (int k)]\<rparr>))"

text \<open>
  The callback \<open>loop\<close> of lines 50-63: \<open>n\<close> lanes, the three pointers advanced by their
  strides after each.
\<close>

fun loop_from ::
  "comparator \<Rightarrow> scalar list \<Rightarrow> nat \<Rightarrow> nat \<Rightarrow> nat \<Rightarrow> nat \<Rightarrow> nat list \<Rightarrow> nat
     \<Rightarrow> tensor \<times> tensor \<Rightarrow> tensor \<times> tensor" where
  "loop_from f self_mem self_dim_stride result_data indice_data self_data strds 0 outs = outs"
| "loop_from f self_mem self_dim_stride result_data indice_data self_data strds (Suc n) outs =
     loop_from f self_mem self_dim_stride
       (result_data + strds ! 0) (indice_data + strds ! 1) (self_data + strds ! 2) strds n
       (invoke f self_mem self_dim_stride result_data indice_data self_data outs)"

definition loop ::
  "comparator \<Rightarrow> scalar list \<Rightarrow> nat \<Rightarrow> nat list \<Rightarrow> nat list \<Rightarrow> nat
     \<Rightarrow> tensor \<times> tensor \<Rightarrow> tensor \<times> tensor" where
  "loop f self_mem self_dim_stride data strds n outs =
     loop_from f self_mem self_dim_stride (data ! 0) (data ! 1) (data ! 2) strds n outs"

text \<open>Lines 28-35: the outputs before the resize.\<close>

definition unsqueeze_outputs :: "tensor \<Rightarrow> tensor \<Rightarrow> nat \<Rightarrow> bool \<Rightarrow> tensor \<times> tensor" where
  "unsqueeze_outputs result indices d keepdim =
     (if \<not> keepdim then
        (if ndimension result \<ge> d then unsqueeze result d else result,
         if ndimension indices \<ge> d then unsqueeze indices d else indices)
      else (result, indices))"

definition compare_base_kernel ::
  "tensor \<Rightarrow> tensor \<Rightarrow> tensor \<Rightarrow> nat \<Rightarrow> bool \<Rightarrow> comparator \<Rightarrow> tensor \<times> tensor" where
  "compare_base_kernel result indices self d keepdim f =
     (let self_sizes = (ensure_nonempty_vec (sizes self))[d := 1] in
      case unsqueeze_outputs result indices d keepdim of (result, indices) \<Rightarrow>
      let result = resize result self_sizes;
          indices = resize indices self_sizes;
          self_dim_stride = ensure_nonempty_stride self d;
          iter = build (declare_static_shape (sizes self) d) [result, indices, self]
      in case for_each iter (loop f (storage self) self_dim_stride) (result, indices) of
           (result, indices) \<Rightarrow>
             if \<not> keepdim then (squeeze result d, squeeze indices d)
             else (result, indices))"

section \<open>The kernels\<close>

text \<open>
  Modelled from the spec: the dispatch macro \<open>AT_DISPATCH_ALL_TYPES_AND_COMPLEX\<close>
  (\<open>ATen/Dispatch.h\<close>) is not among the sources. It instantiates its body for the signed
  and unsigned integer, the floating point and the complex domains; any other element
  type raises.
\<close>

definition dispatch_all_types_and_complex :: "ScalarType \<Rightarrow> bool" where
  "dispatch_all_types_and_complex st =
     (st \<in> {kByte, kChar, kDouble, kFloat, kInt, kLong, kShort, kComplexFloat, kComplexDouble})"

text \<open>
  Modelled from the spec: \<open>AT_DISPATCH_ALL_TYPES_AND_COMPLEX_AND\<close> is not among the
  sources; it takes one element type more, its first argument.
\<close>

definition dispatch_all_types_and_complex_and :: "ScalarType \<Rightarrow> ScalarType \<Rightarrow> bool" where
  "dispatch_all_types_and_complex_and extra st =
     (dispatch_all_types_and_complex st \<or> st = extra)"

text \<open>
  Modelled from the spec: \<open>AT_DISPATCH_FLOATING_TYPES_AND2\<close> is not among the sources; it
  instantiates its body for the floating types and two more, its first two arguments
  (the reduced-precision types, where the source uses it).
\<close>

definition dispatch_floating_types_and2 :: "ScalarType \<Rightarrow> ScalarType \<Rightarrow> ScalarType \<Rightarrow> bool" where
  "dispatch_floating_types_and2 extra1 extra2 st =
     (st \<in> {kDouble, kFloat} \<or> st = extra1 \<or> st = extra2)"

text \<open>
  A call leaves an error, if it raised one, and the two output tensors as they are when
  it returns or raises.
\<close>

type_synonym outcome = "error option \<times> tensor \<times> tensor"

definition min_kernel_impl ::
  "(real \<Rightarrow> real \<Rightarrow> real option) \<Rightarrow> tensor \<Rightarrow> tensor \<Rightarrow> tensor \<Rightarrow> int \<Rightarrow> bool \<Rightarrow> outcome" where
  "min_kernel_impl hypot result indice self d keepdim =
     (case maybe_wrap_dim d (ndimension self) of
        Inl e \<Rightarrow> (Some e, result, indice)
      | Inr wrap_dim \<Rightarrow>
          let self_dim_size = ensure_nonempty_size self wrap_dim in
          if \<not> (scalar_type result = scalar_type self \<and> scalar_type indice = kLong)
          then (Some TypeMismatch, result, indice)
          else if \<not> dispatch_all_types_and_complex_and kBool (scalar_type self)
          then (Some NotImplemented, result, indice)
          else (None, compare_base_kernel result indice self wrap_dim keepdim
                        (min_scan hypot self_dim_size)))"

definition max_kernel_impl ::
  "(real \<Rightarrow> real \<Rightarrow> real option) \<Rightarrow> tensor \<Rightarrow> tensor \<Rightarrow> tensor \<Rightarrow> int \<Rightarrow> bool \<Rightarrow> outcome" where
  "max_kernel_impl hypot result indice self d keepdim =
     (case maybe_wrap_dim d (ndimension self) of
        Inl e \<Rightarrow> (Some e, result, indice)
      | Inr wrap_dim \<Rightarrow>
          let self_dim_size = ensure_nonempty_size self wrap_dim in
          if \<not> (scalar_type result = scalar_type self \<and> scalar_type indice = kLong)
          then (Some TypeMismatch, result, indice)
          else if \<not> dispatch_all_types_and_complex_and kBool (scalar_type self)
          then (Some NotImplemented, result, indice)
          else (None, compare_base_kernel result indice self wrap_dim keepdim
                        (max_scan hypot self_dim_size)))"

section \<open>The element-wise kernels\<close>

text \<open>
  Modelled from the spec: \<open>cpu_kernel\<close> (\<open>ATen/native/cpu/Loops.h\<close>) is not among the
  sources; it is the element-wise mapping of section 2: the operation is applied to the
  input at each position and its result is the output at that position.
\<close>

definition cpu_kernel1 :: "('a \<Rightarrow> 'r) \<Rightarrow> 'a list \<Rightarrow> 'r list" where
  "cpu_kernel1 op xs = map op xs"

text \<open>
  Modelled from the spec: \<open>cpu_kernel\<close> for an operation of three inputs. The iteration
  engine has broadcast the operands, which all have one extent.
\<close>

definition cpu_kernel3 ::
  "('c \<Rightarrow> 'a \<Rightarrow> 'b \<Rightarrow> 'r) \<Rightarrow> 'c list \<Rightarrow> 'a list \<Rightarrow> 'b list \<Rightarrow> 'r list" where
  "cpu_kernel3 op cs xs ys = map (\<lambda>(c, x, y). op c x y) (zip cs (zip xs ys))"

text \<open>
  The condition operand of the ternary select in its two physical encodings: one byte
  per element (\<open>uint8_t\<close>), or the native \<open>bool\<close>. A callback whose parameter is of the
  other type reads the element's byte as its own type.
\<close>

datatype condition_buffer = ByteBuffer "8 word list" | BoolBuffer "bool list"

fun as_uint8 :: "condition_buffer \<Rightarrow> 8 word list" where
  "as_uint8 (ByteBuffer cs) = cs"
| "as_uint8 (BoolBuffer bs) = map of_bool bs"

fun as_bool :: "condition_buffer \<Rightarrow> bool list" where
  "as_bool (BoolBuffer bs) = bs"
| "as_bool (ByteBuffer cs) = map (\<lambda>c. c \<noteq> 0) cs"

record where_iterator =
  dtype :: ScalarType
  condition :: condition_buffer
  self_vals :: "scalar list"
  other_vals :: "scalar list"

definition where_kernel_impl :: "where_iterator \<Rightarrow> ScalarType \<Rightarrow> error + scalar list" where
  "where_kernel_impl iter condition_type =
     (if \<not> dispatch_all_types_and_complex (dtype iter) then Inl NotImplemented
      else if condition_type = kByte then
        Inr (cpu_kernel3
               (\<lambda>cond_val self_val other_val. if cond_val \<noteq> 0 then self_val else other_val)
               (as_uint8 (condition iter)) (self_vals iter) (other_vals iter))
      else
        Inr (cpu_kernel3
               (\<lambda>cond_val self_val other_val. if cond_val then self_val else other_val)
               (as_bool (condition iter)) (self_vals iter) (other_vals iter)))"

text \<open>
  The infinity predicates: the input's elements are read as \<open>scalar_t\<close>, one of the
  floating types of the dispatch, and compared with \<open>==\<close>.
\<close>

record unary_iterator =
  input_dtype :: ScalarType
  input :: "fp list"

definition infinity :: fp where
  "infinity = PosInf"

definition isposinf_kernel_impl :: "unary_iterator \<Rightarrow> error + bool list" where
  "isposinf_kernel_impl iter =
     (if \<not> dispatch_floating_types_and2 kHalf kBFloat16 (input_dtype iter)
      then Inl NotImplemented
      else Inr (cpu_kernel1 (\<lambda>a. fp_eq a infinity) (input iter)))"

definition isneginf_kernel_impl :: "unary_iterator \<Rightarrow> error + bool list" where
  "isneginf_kernel_impl iter =
     (if \<not> dispatch_floating_types_and2 kHalf kBFloat16 (input_dtype iter)
      then Inl NotImplemented
      else Inr (cpu_kernel1 (\<lambda>a. fp_eq a (fp_neg infinity)) (input iter)))"

section \<open>Elements and lanes\<close>

text \<open>
  The element of a tensor at an index, read through the tensor's strides; a tensor laid
  out as \<open>resize\<close> lays it out, row-major and with storage for all its elements; and
  the index, in the outputs the kernel returns, of the lane that has the index \<open>idx\<close>
  in the iteration shape (the input's shape with the axis \<open>d\<close> at extent 1): the same
  index with \<open>keepdim\<close>, the index without its component \<open>d\<close> otherwise.
\<close>

definition element_at :: "tensor \<Rightarrow> nat list \<Rightarrow> scalar" where
  "element_at t idx = load (storage t) (offset_of (strides t) idx)"

definition contiguous :: "tensor \<Rightarrow> bool" where
  "contiguous t = (strides t = contiguous_strides (sizes t)
     \<and> prod_list (sizes t) \<le> length (storage t))"

definition output_index :: "nat list \<Rightarrow> nat \<Rightarrow> bool \<Rightarrow> nat list" where
  "output_index idx d keepdim = (if keepdim then idx else take d idx @ drop (Suc d) idx)"

section \<open>Concrete inputs\<close>

text \<open>
  A value of the parameter \<open>hypot\<close> for the examples: a library that rounds nothing
  and never overflows. On the one pair of finite components an example below takes the
  modulus of, \<open>(1, 0)\<close>, it returns what every library returns. Then the array
  \<open>[[1,5,2],[9,0,3]]\<close> of the scenario of section 8; an output tensor as a
  caller first passes it (no element yet), and one left over from an earlier call; an
  input with a zero extent; a boolean input; three lanes.
\<close>

definition sample_hypot :: "real \<Rightarrow> real \<Rightarrow> real option" where
  "sample_hypot x y = Some (sqrt (x * x + y * y))"

definition scenario_input :: tensor where
  "scenario_input = \<lparr>scalar_type = kLong, sizes = [2, 3], strides = [3, 1],
     storage = map IntegralV [1, 5, 2, 9, 0, 3]\<rparr>"

definition fresh_output :: "ScalarType \<Rightarrow> tensor" where
  "fresh_output st = \<lparr>scalar_type = st, sizes = [0], strides = [1], storage = []\<rparr>"

definition reused_output :: "ScalarType \<Rightarrow> tensor" where
  "reused_output st = \<lparr>scalar_type = st, sizes = [2], strides = [1],
     storage = [IntegralV 7, IntegralV 7]\<rparr>"

definition zero_extent_input :: tensor where
  "zero_extent_input =
     \<lparr>scalar_type = kLong, sizes = [0, 0], strides = [1, 1], storage = []\<rparr>"

definition nan_lane :: "scalar list" where
  "nan_lane = [FloatV (Finite 3), FloatV NaN, FloatV (Finite 1)]"

definition complex_lane :: "scalar list" where
  "complex_lane = [ComplexV (Finite 1) (Finite 0), ComplexV PosInf NaN]"

definition bool_input :: tensor where
  "bool_input = \<lparr>scalar_type = kBool, sizes = [3], strides = [1],
     storage = [BoolV True, BoolV False, BoolV True]\<rparr>"

definition bool_lane :: "nat \<Rightarrow> bool" where
  "bool_lane p = (p \<noteq> 1)"

section \<open>Keys of one instantiation\<close>

text \<open>
  Which kind of key an element type has, and the keys an order relates: the proper ones
  that are not NaN.
\<close>

fun kind :: "key \<Rightarrow> nat" where
  "kind (IntegralK _) = 0"
| "kind (BoolK _) = 1"
| "kind (FloatK _) = 2"
| "kind NoKey = 3"

definition ordered :: "key \<Rightarrow> bool" where
  "ordered k = (\<not> key_isnan k \<and> k \<noteq> NoKey)"

fun kind_of :: "ScalarType \<Rightarrow> nat" where
  "kind_of st =
     (if st \<in> {kByte, kChar, kShort, kInt, kLong} then 0
      else if st = kBool then 1
      else 2)"

section \<open>Properties of the keys\<close>

declare min_loop.simps [simp del] max_loop.simps [simp del]

lemma fp_le_ge: "fp_le a b = fp_ge b a"
  by (cases a; cases b) auto

lemma key_le_ge: "key_le a b = key_ge b a"
  by (cases a; cases b) (auto simp: fp_le_ge)

lemma fp_ge_total: "a \<noteq> NaN \<Longrightarrow> b \<noteq> NaN \<Longrightarrow> fp_ge a b \<or> fp_ge b a"
  by (cases a; cases b) auto

lemma fp_ge_trans: "fp_ge a b \<Longrightarrow> fp_ge b c \<Longrightarrow> fp_ge a c"
  by (cases a; cases b; cases c) auto

lemma key_ge_total:
  "kind a = kind b \<Longrightarrow> ordered a \<Longrightarrow> ordered b \<Longrightarrow> key_ge a b \<or> key_ge b a"
  by (cases a; cases b) (auto simp: ordered_def dest: fp_ge_total)

lemma key_ge_trans: "key_ge a b \<Longrightarrow> key_ge b c \<Longrightarrow> key_ge a c"
  by (cases a; cases b; cases c) (auto dest: fp_ge_trans)

lemma key_ge_refl: "ordered a \<Longrightarrow> key_ge a a"
  using key_ge_total [of a a] by simp

lemma key_le_total:
  "kind a = kind b \<Longrightarrow> ordered a \<Longrightarrow> ordered b \<Longrightarrow> key_le a b \<or> key_le b a"
  using key_ge_total [of a b] by (auto simp: key_le_ge)

lemma key_le_trans: "key_le a b \<Longrightarrow> key_le b c \<Longrightarrow> key_le a c"
  using key_ge_trans [of c b a] by (simp add: key_le_ge)

lemma key_le_refl: "ordered a \<Longrightarrow> key_le a a"
  by (simp add: key_le_ge key_ge_refl)

lemma key_ge_nan: "key_isnan a \<Longrightarrow> \<not> key_ge a b"
  by (cases a; cases b) auto

lemma key_le_nan: "key_isnan a \<Longrightarrow> \<not> key_le a b"
  by (cases a; cases b) auto

lemma std_abs_not_nan: "re \<noteq> NaN \<Longrightarrow> im \<noteq> NaN \<Longrightarrow> std_abs h re im \<noteq> NaN"
  by (cases re; cases im) (auto split: option.splits)

lemma typed_key:
  "typed st v \<Longrightarrow> \<not> isnan v \<Longrightarrow> ordered (zabs h v) \<and> kind (zabs h v) = kind_of st"
  by (cases v) (auto simp: ordered_def std_abs_not_nan)

text \<open>The key of a NaN element is NaN, unless the element is complex with an infinite component.\<close>

lemma key_isnan_zabs:
  "key_isnan (zabs h v) =
     (isnan v \<and> (\<forall>re im. v = ComplexV re im \<longrightarrow> re \<notin> {PosInf, NegInf} \<and> im \<notin> {PosInf, NegInf}))"
proof (cases v)
  case (ComplexV re im)
  then show ?thesis by (cases re; cases im) (auto split: option.splits)
qed auto

subsection \<open>The branches of min_loop\<close>

lemma min_loop_exit: "\<not> i < n \<Longrightarrow> min_loop h n data s i m idx = (m, idx)"
  by (subst min_loop.simps) simp

lemma min_loop_keep:
  "i < n \<Longrightarrow> key_ge (zabs h (data (i * s))) (zabs h m) \<Longrightarrow>
   min_loop h n data s i m idx = min_loop h n data s (i + 1) m idx"
  by (subst min_loop.simps) (simp add: Let_def)

lemma min_loop_break:
  "i < n \<Longrightarrow> \<not> key_ge (zabs h (data (i * s))) (zabs h m) \<Longrightarrow> isnan (data (i * s)) \<Longrightarrow>
   min_loop h n data s i m idx = (data (i * s), i)"
  by (subst min_loop.simps) (simp add: Let_def)

lemma min_loop_update:
  "i < n \<Longrightarrow> \<not> key_ge (zabs h (data (i * s))) (zabs h m) \<Longrightarrow> \<not> isnan (data (i * s)) \<Longrightarrow>
   min_loop h n data s i m idx = min_loop h n data s (i + 1) (data (i * s)) i"
  by (subst min_loop.simps) (simp add: Let_def)

lemma min_loop_index:
  "idx < n \<Longrightarrow> m = data (idx * s) \<Longrightarrow>
   snd (min_loop h n data s i m idx) < n
   \<and> fst (min_loop h n data s i m idx) = data (snd (min_loop h n data s i m idx) * s)"
proof (induction "n - i" arbitrary: i m idx)
  case 0
  then show ?case by (simp add: min_loop_exit)
next
  case (Suc d)
  then have i: "i < n" and d: "d = n - (i + 1)" by simp_all
  show ?case
  proof (cases "key_ge (zabs h (data (i * s))) (zabs h m)")
    case True
    with Suc.hyps(1) [OF d Suc.prems] i show ?thesis by (simp add: min_loop_keep)
  next
    case False
    with Suc.hyps(1) [OF d i refl] i show ?thesis
      by (cases "isnan (data (i * s))") (simp_all add: min_loop_break min_loop_update)
  qed
qed

lemma min_loop_nan:
  assumes "k < n" and "isnan (data (k * s))" and "key_isnan (zabs h (data (k * s)))"
    and "\<forall>j<k. \<not> isnan (data (j * s))" and "i \<le> k"
  shows "min_loop h n data s i m idx = (data (k * s), k)"
  using assms(5)
proof (induction "k - i" arbitrary: i m idx)
  case 0
  then have "i = k" by simp
  with assms(1,2,3) show ?case by (simp add: min_loop_break key_ge_nan)
next
  case (Suc d)
  then have ik: "i < k" and d: "d = k - (i + 1)" and le: "i + 1 \<le> k" by simp_all
  from ik assms(1,4) have i: "i < n" "\<not> isnan (data (i * s))" by simp_all
  show ?case
    using i Suc.hyps(1) [OF d le]
    by (cases "key_ge (zabs h (data (i * s))) (zabs h m)") (simp_all add: min_loop_keep min_loop_update)
qed

lemma min_loop_extremum:
  assumes "\<forall>j<n. ordered (zabs h (data (j * s))) \<and> kind (zabs h (data (j * s))) = c
                 \<and> \<not> isnan (data (j * s))"
    and "idx < n" and "m = data (idx * s)"
    and "\<forall>j<i. key_ge (zabs h (data (j * s))) (zabs h m)"
    and "\<forall>j<idx. \<not> key_ge (zabs h m) (zabs h (data (j * s)))"
    and "idx \<le> i" and "min_loop h n data s i m idx = (v, k)"
  shows "(\<forall>j<n. key_ge (zabs h (data (j * s))) (zabs h v))
       \<and> (\<forall>j<k. \<not> key_ge (zabs h v) (zabs h (data (j * s))))"
  using assms(2-)
proof (induction "n - i" arbitrary: i m idx)
  case 0
  then have ni: "\<not> i < n" by simp
  from "0.prems"(6) have "v = m" "k = idx" by (simp_all add: min_loop_exit [OF ni])
  with "0.prems"(3,4) ni show ?case by auto
next
  case (Suc d)
  then have i: "i < n" and d: "d = n - (i + 1)" by simp_all
  let ?x = "data (i * s)"
  from assms(1) i have nn: "\<not> isnan ?x" by blast
  show ?case
  proof (cases "key_ge (zabs h ?x) (zabs h m)")
    case True
    have a: "\<forall>j<i + 1. key_ge (zabs h (data (j * s))) (zabs h m)"
      using Suc.prems(3) True by (auto simp: less_Suc_eq)
    from Suc.prems(6) i True have r: "min_loop h n data s (i + 1) m idx = (v, k)"
      by (simp add: min_loop_keep)
    from Suc.prems(5) have le: "idx \<le> i + 1" by simp
    show ?thesis by (rule Suc.hyps(1) [OF d Suc.prems(1,2) a Suc.prems(4) le r])
  next
    case False
    from assms(1) Suc.prems(1,2) i have "key_ge (zabs h m) (zabs h ?x)"
      using key_ge_total [of "zabs h m" "zabs h ?x"] False by auto
    then have a: "\<forall>j<i + 1. key_ge (zabs h (data (j * s))) (zabs h ?x)"
      using Suc.prems(3) assms(1) i
      by (auto simp: less_Suc_eq intro: key_ge_trans key_ge_refl)
    have b: "\<forall>j<i. \<not> key_ge (zabs h ?x) (zabs h (data (j * s)))"
      using Suc.prems(3) False by (blast intro: key_ge_trans)
    from Suc.prems(6) i False nn have r: "min_loop h n data s (i + 1) ?x i = (v, k)"
      by (simp add: min_loop_update)
    have le: "i \<le> i + 1" by simp
    show ?thesis by (rule Suc.hyps(1) [OF d i refl a b le r])
  qed
qed

subsection \<open>The branches of max_loop\<close>

lemma max_loop_exit: "\<not> i < n \<Longrightarrow> max_loop h n data s i m idx = (m, idx)"
  by (subst max_loop.simps) simp

lemma max_loop_keep:
  "i < n \<Longrightarrow> key_le (zabs h (data (i * s))) (zabs h m) \<Longrightarrow>
   max_loop h n data s i m idx = max_loop h n data s (i + 1) m idx"
  by (subst max_loop.simps) (simp add: Let_def)

lemma max_loop_break:
  "i < n \<Longrightarrow> \<not> key_le (zabs h (data (i * s))) (zabs h m) \<Longrightarrow> isnan (data (i * s)) \<Longrightarrow>
   max_loop h n data s i m idx = (data (i * s), i)"
  by (subst max_loop.simps) (simp add: Let_def)

lemma max_loop_update:
  "i < n \<Longrightarrow> \<not> key_le (zabs h (data (i * s))) (zabs h m) \<Longrightarrow> \<not> isnan (data (i * s)) \<Longrightarrow>
   max_loop h n data s i m idx = max_loop h n data s (i + 1) (data (i * s)) i"
  by (subst max_loop.simps) (simp add: Let_def)

lemma max_loop_index:
  "idx < n \<Longrightarrow> m = data (idx * s) \<Longrightarrow>
   snd (max_loop h n data s i m idx) < n
   \<and> fst (max_loop h n data s i m idx) = data (snd (max_loop h n data s i m idx) * s)"
proof (induction "n - i" arbitrary: i m idx)
  case 0
  then show ?case by (simp add: max_loop_exit)
next
  case (Suc d)
  then have i: "i < n" and d: "d = n - (i + 1)" by simp_all
  show ?case
  proof (cases "key_le (zabs h (data (i * s))) (zabs h m)")
    case True
    with Suc.hyps(1) [OF d Suc.prems] i show ?thesis by (simp add: max_loop_keep)
  next
    case False
    with Suc.hyps(1) [OF d i refl] i show ?thesis
      by (cases "isnan (data (i * s))") (simp_all add: max_loop_break max_loop_update)
  qed
qed

lemma max_loop_nan:
  assumes "k < n" and "isnan (data (k * s))" and "key_isnan (zabs h (data (k * s)))"
    and "\<forall>j<k. \<not> isnan (data (j * s))" and "i \<le> k"
  shows "max_loop h n data s i m idx = (data (k * s), k)"
  using assms(5)
proof (induction "k - i" arbitrary: i m idx)
  case 0
  then have "i = k" by simp
  with assms(1,2,3) show ?case by (simp add: max_loop_break key_le_nan)
next
  case (Suc d)
  then have ik: "i < k" and d: "d = k - (i + 1)" and le: "i + 1 \<le> k" by simp_all
  from ik assms(1,4) have i: "i < n" "\<not> isnan (data (i * s))" by simp_all
  show ?case
    using i Suc.hyps(1) [OF d le]
    by (cases "key_le (zabs h (data (i * s))) (zabs h m)") (simp_all add: max_loop_keep max_loop_update)
qed

lemma max_loop_extremum:
  assumes "\<forall>j<n. ordered (zabs h (data (j * s))) \<and> kind (zabs h (data (j * s))) = c
                 \<and> \<not> isnan (data (j * s))"
    and "idx < n" and "m = data (idx * s)"
    and "\<forall>j<i. key_le (zabs h (data (j * s))) (zabs h m)"
    and "\<forall>j<idx. \<not> key_le (zabs h m) (zabs h (data (j * s)))"
    and "idx \<le> i" and "max_loop h n data s i m idx = (v, k)"
  shows "(\<forall>j<n. key_le (zabs h (data (j * s))) (zabs h v))
       \<and> (\<forall>j<k. \<not> key_le (zabs h v) (zabs h (data (j * s))))"
  using assms(2-)
proof (induction "n - i" arbitrary: i m idx)
  case 0
  then have ni: "\<not> i < n" by simp
  from "0.prems"(6) have "v = m" "k = idx" by (simp_all add: max_loop_exit [OF ni])
  with "0.prems"(3,4) ni show ?case by auto
next
  case (Suc d)
  then have i: "i < n" and d: "d = n - (i + 1)" by simp_all
  let ?x = "data (i * s)"
  from assms(1) i have nn: "\<not> isnan ?x" by blast
  show ?case
  proof (cases "key_le (zabs h ?x) (zabs h m)")
    case True
    have a: "\<forall>j<i + 1. key_le (zabs h (data (j * s))) (zabs h m)"
      using Suc.prems(3) True by (auto simp: less_Suc_eq)
    from Suc.prems(6) i True have r: "max_loop h n data s (i + 1) m idx = (v, k)"
      by (simp add: max_loop_keep)
    from Suc.prems(5) have le: "idx \<le> i + 1" by simp
    show ?thesis by (rule Suc.hyps(1) [OF d Suc.prems(1,2) a Suc.prems(4) le r])
  next
    case False
    from assms(1) Suc.prems(1,2) i have "key_le (zabs h m) (zabs h ?x)"
      using key_le_total [of "zabs h m" "zabs h ?x"] False by auto
    then have a: "\<forall>j<i + 1. key_le (zabs h (data (j * s))) (zabs h ?x)"
      using Suc.prems(3) assms(1) i
      by (auto simp: less_Suc_eq intro: key_le_trans key_le_refl)
    have b: "\<forall>j<i. \<not> key_le (zabs h ?x) (zabs h (data (j * s)))"
      using Suc.prems(3) False by (blast intro: key_le_trans)
    from Suc.prems(6) i False nn have r: "max_loop h n data s (i + 1) ?x i = (v, k)"
      by (simp add: max_loop_update)
    have le: "i \<le> i + 1" by simp
    show ?thesis by (rule Suc.hyps(1) [OF d i refl a b le r])
  qed
qed

section \<open>Properties of the lane scan\<close>

text \<open>
  From an index inside the lane, the scan ends on an index inside the lane, and on the
  element at that index.
\<close>

lemma min_scan_extremum:
  assumes "0 < n"
    and "\<forall>j<n. ordered (zabs h (data (j * s))) \<and> kind (zabs h (data (j * s))) = c
                 \<and> \<not> isnan (data (j * s))"
  shows "\<exists>k<n. min_scan h n data s = (data (k * s), k)
           \<and> (\<forall>j<n. key_ge (zabs h (data (j * s))) (zabs h (data (k * s))))
           \<and> (\<forall>j<k. \<not> key_ge (zabs h (data (k * s))) (zabs h (data (j * s))))"
proof -
  obtain v k where r: "min_loop h n data s 0 (data 0) 0 = (v, k)"
    by (cases "min_loop h n data s 0 (data 0) 0")
  from min_loop_index [where idx = 0 and n = n and m = "data 0" and data = data and s = s
      and i = 0 and h = h] assms(1) r
  have k: "k < n" "v = data (k * s)" by simp_all
  from min_loop_extremum [OF assms(2) assms(1) _ _ _ _ r]
  have "(\<forall>j<n. key_ge (zabs h (data (j * s))) (zabs h v))
      \<and> (\<forall>j<k. \<not> key_ge (zabs h v) (zabs h (data (j * s))))"
    by simp
  with k r show ?thesis by (auto simp: min_scan_def)
qed

lemma max_scan_extremum:
  assumes "0 < n"
    and "\<forall>j<n. ordered (zabs h (data (j * s))) \<and> kind (zabs h (data (j * s))) = c
                 \<and> \<not> isnan (data (j * s))"
  shows "\<exists>k<n. max_scan h n data s = (data (k * s), k)
           \<and> (\<forall>j<n. key_le (zabs h (data (j * s))) (zabs h (data (k * s))))
           \<and> (\<forall>j<k. \<not> key_le (zabs h (data (k * s))) (zabs h (data (j * s))))"
proof -
  obtain v k where r: "max_loop h n data s 0 (data 0) 0 = (v, k)"
    by (cases "max_loop h n data s 0 (data 0) 0")
  from max_loop_index [where idx = 0 and n = n and m = "data 0" and data = data and s = s
      and i = 0 and h = h] assms(1) r
  have k: "k < n" "v = data (k * s)" by simp_all
  from max_loop_extremum [OF assms(2) assms(1) _ _ _ _ r]
  have "(\<forall>j<n. key_le (zabs h (data (j * s))) (zabs h v))
      \<and> (\<forall>j<k. \<not> key_le (zabs h v) (zabs h (data (j * s))))"
    by simp
  with k r show ?thesis by (auto simp: max_scan_def)
qed


section \<open>Properties of the reduction engine\<close>

lemma sizes_resize: "sizes (resize t ns) = ns"
  by (simp add: resize_def)

lemma invoke_sizes:
  "sizes (fst (invoke f mem sd p0 p1 p2 outs)) = sizes (fst outs)
   \<and> sizes (snd (invoke f mem sd p0 p1 p2 outs)) = sizes (snd outs)"
  by (simp add: invoke_def split: prod.splits)

lemma loop_from_sizes:
  "sizes (fst (loop_from f mem sd p0 p1 p2 strds n outs)) = sizes (fst outs)
   \<and> sizes (snd (loop_from f mem sd p0 p1 p2 strds n outs)) = sizes (snd outs)"
  by (induction n arbitrary: p0 p1 p2 outs) (simp_all add: invoke_sizes)

lemma fold_invariant:
  "P s \<Longrightarrow> (\<And>x s. P s \<Longrightarrow> P (g x s)) \<Longrightarrow> P (fold g xs s)"
  by (induction xs arbitrary: s) auto

lemma for_each_sizes:
  "sizes (fst (for_each iter (loop f mem sd) outs)) = sizes (fst outs)
   \<and> sizes (snd (for_each iter (loop f mem sd) outs)) = sizes (snd outs)"
proof -
  let ?P = "\<lambda>s. sizes (fst s) = sizes (fst outs) \<and> sizes (snd s) = sizes (snd outs)"
  have step: "?P (loop f mem sd a b n s)" if "?P s" for a b n s
    using that loop_from_sizes [of f mem sd "a ! 0" "a ! 1" "a ! 2" b n s]
    by (simp add: loop_def)
  show ?thesis
    unfolding for_each_def Let_def
    by (cases "shape iter = []") (auto intro!: fold_invariant [where P = ?P] step)
qed

lemma sizes_squeeze:
  "d < length ss \<Longrightarrow> sizes t = ss[d := 1] \<Longrightarrow>
   sizes (squeeze t d) = take d ss @ drop (Suc d) ss"
  by (simp add: squeeze_def ndimension_def drop_update_cancel)

lemma maybe_wrap_dim_Inr: "maybe_wrap_dim d r = Inr w \<Longrightarrow> 0 < r \<Longrightarrow> w < r"
  by (auto simp: maybe_wrap_dim_def Let_def split: if_splits)

lemma compare_base_kernel_sizes:
  assumes "d < ndimension self"
  shows "sizes (fst (compare_base_kernel result indices self d keepdim f))
           = (if keepdim then (sizes self)[d := 1]
              else take d (sizes self) @ drop (Suc d) (sizes self))
       \<and> sizes (snd (compare_base_kernel result indices self d keepdim f))
           = (if keepdim then (sizes self)[d := 1]
              else take d (sizes self) @ drop (Suc d) (sizes self))"
proof -
  from assms have ne: "ensure_nonempty_vec (sizes self) = sizes self"
    by (auto simp: ensure_nonempty_vec_def ndimension_def)
  obtain r0 i0 where u: "unsqueeze_outputs result indices d keepdim = (r0, i0)"
    by (cases "unsqueeze_outputs result indices d keepdim")
  let ?ss = "(sizes self)[d := 1]"
  let ?r = "resize r0 ?ss" and ?i = "resize i0 ?ss"
  let ?it = "build (declare_static_shape (sizes self) d) [?r, ?i, self]"
  let ?lp = "loop f (storage self) (ensure_nonempty_stride self d)"
  obtain r1 i1 where fe: "for_each ?it ?lp (?r, ?i) = (r1, i1)"
    by (cases "for_each ?it ?lp (?r, ?i)")
  from for_each_sizes [of ?it f "storage self" "ensure_nonempty_stride self d" "(?r, ?i)"] fe
  have s1: "sizes r1 = ?ss" "sizes i1 = ?ss" by (simp_all add: sizes_resize)
  have cb: "compare_base_kernel result indices self d keepdim f
      = (if \<not> keepdim then (squeeze r1 d, squeeze i1 d) else (r1, i1))"
    unfolding compare_base_kernel_def Let_def ne u prod.case fe by simp
  from assms have dl: "d < length (sizes self)" by (simp add: ndimension_def)
  show ?thesis
    using s1 sizes_squeeze [OF dl s1(1)] sizes_squeeze [OF dl s1(2)] by (simp add: cb)
qed








text \<open>
  What the engine writes for one lane. \<open>for_each\<close> calls the comparator once for each
  index of the iteration shape, in row-major order, at the offsets the operands' strides
  give; when the outputs are resized, or are contiguous already, no two lanes share an
  output element, and after \<open>min_kernel_impl\<close> and \<open>max_kernel_impl\<close> the value and the
  index at a lane's position are the results of the scan of that lane.
\<close>

lemma loop_from_fold:
  "loop_from f mem sd p0 p1 p2 strds n outs
     = fold (\<lambda>j. invoke f mem sd (p0 + j * strds ! 0) (p1 + j * strds ! 1) (p2 + j * strds ! 2))
         [0..<n] outs"
proof (induction n arbitrary: p0 p1 p2 outs)
  case 0
  then show ?case by simp
next
  case (Suc n)
  have "[0..<Suc n] = 0 # map Suc [0..<n]"
    by (simp add: upt_conv_Cons map_Suc_upt del: upt_Suc)
  then show ?case
    by (simp add: Suc.IH fold_map o_def add.assoc del: upt_Suc)
qed

lemma concat_concat: "concat (concat xsss) = concat (map concat xsss)"
  by (induction xsss) simp_all

lemma multi_indices_snoc:
  "multi_indices (xs @ [n])
     = concat (map (\<lambda>outer. map (\<lambda>j. outer @ [j]) [0..<n]) (multi_indices xs))"
proof (induction xs)
  case Nil
  show ?case by (simp add: o_def)
next
  case (Cons m xs)
  show ?case
    by (simp add: Cons.IH map_concat concat_concat o_def del: upt_Suc)
qed

lemma fold_concat: "fold f (concat xss) = fold (fold f) xss"
  by (induction xss) simp_all

lemma multi_indices_length: "idx \<in> set (multi_indices ns) \<Longrightarrow> length idx = length ns"
  by (induction ns arbitrary: idx) auto

lemma offset_of_snoc:
  "length outer = length st \<Longrightarrow> offset_of (st @ [l]) (outer @ [j]) = offset_of st outer + j * l"
  by (simp add: offset_of_def)

lemma for_each_fold:
  assumes "shape iter \<noteq> []" and "operands iter = [t0, t1, t2]"
  shows "for_each iter (loop f mem sd) outs
     = fold (\<lambda>idx. invoke f mem sd (offset_of (operand_strides (shape iter) t0) idx)
                      (offset_of (operand_strides (shape iter) t1) idx)
                      (offset_of (operand_strides (shape iter) t2) idx))
         (multi_indices (shape iter)) outs"
proof -
  let ?shp = "shape iter"
  let ?s0 = "operand_strides ?shp t0" and ?s1 = "operand_strides ?shp t1"
    and ?s2 = "operand_strides ?shp t2"
  have len: "length ?s0 = length ?shp" "length ?s1 = length ?shp" "length ?s2 = length ?shp"
    by (simp_all add: operand_strides_def)
  from assms(1) have shp: "?shp = butlast ?shp @ [last ?shp]" by simp
  have split: "st = butlast st @ [last st]" "length (butlast st) = length (butlast ?shp)"
    if "length st = length ?shp" for st :: "nat list"
    using that assms(1) by (cases st rule: rev_cases; simp)+
  have off: "offset_of st (outer @ [j]) = offset_of (butlast st) outer + j * last st"
    if "length st = length ?shp" and "outer \<in> set (multi_indices (butlast ?shp))" for st outer j
  proof -
    from that(2) have "length outer = length (butlast st)"
      using split(2) [OF that(1)] by (simp add: multi_indices_length)
    from offset_of_snoc [OF this, of "last st" j] split(1) [OF that(1)] show ?thesis by simp
  qed
  have inner: "loop f mem sd (map (\<lambda>st. offset_of (butlast st) outer) [?s0, ?s1, ?s2])
        (map last [?s0, ?s1, ?s2]) (last ?shp) s
      = fold (\<lambda>idx. invoke f mem sd (offset_of ?s0 idx) (offset_of ?s1 idx) (offset_of ?s2 idx))
          (map (\<lambda>j. outer @ [j]) [0..<last ?shp]) s"
    if "outer \<in> set (multi_indices (butlast ?shp))" for outer s
    by (simp add: loop_def loop_from_fold fold_map o_def off [OF len(1) that]
        off [OF len(2) that] off [OF len(3) that] del: upt_Suc)
  have "for_each iter (loop f mem sd) outs
      = fold (\<lambda>outer. loop f mem sd (map (\<lambda>st. offset_of (butlast st) outer) [?s0, ?s1, ?s2])
                (map last [?s0, ?s1, ?s2]) (last ?shp))
          (multi_indices (butlast ?shp)) outs"
    using assms by (simp add: for_each_def Let_def)
  also have "\<dots> = fold (\<lambda>outer. fold (\<lambda>idx. invoke f mem sd (offset_of ?s0 idx)
                   (offset_of ?s1 idx) (offset_of ?s2 idx))
                   (map (\<lambda>j. outer @ [j]) [0..<last ?shp]))
          (multi_indices (butlast ?shp)) outs"
    by (rule fold_cong [OF refl refl]) (rule ext, rule inner)
  also have "\<dots> = fold (\<lambda>idx. invoke f mem sd (offset_of ?s0 idx) (offset_of ?s1 idx)
                  (offset_of ?s2 idx)) (multi_indices ?shp) outs"
    by (subst (2) shp) (simp add: multi_indices_snoc fold_concat fold_map o_def del: upt_Suc)
  finally show ?thesis .
qed


lemma multi_indices_product_lists:
  "multi_indices ns = product_lists (map (\<lambda>n. [0..<n]) ns)"
  by (induction ns) simp_all

lemma distinct_multi_indices: "distinct (multi_indices ns)"
  by (simp add: multi_indices_product_lists distinct_product_lists)

lemma multi_indices_positive:
  "idx \<in> set (multi_indices ns) \<Longrightarrow> map (max 1) ns = ns \<and> 0 < prod_list ns"
  by (induction ns arbitrary: idx) (auto simp: max_def)

lemma offset_of_Cons: "offset_of (c # cs) (i # idx) = i * c + offset_of cs idx"
  by (simp add: offset_of_def)

lemma offset_bound:
  "idx \<in> set (multi_indices ns) \<Longrightarrow> offset_of (contiguous_strides ns) idx < prod_list ns"
proof (induction ns arbitrary: idx)
  case Nil
  then show ?case by (simp add: offset_of_def)
next
  case (Cons n ns)
  then obtain i rest where idx: "idx = i # rest" "i < n" "rest \<in> set (multi_indices ns)"
    by auto
  from multi_indices_positive [OF idx(3)] have p: "map (max (Suc 0)) ns = ns" by simp
  from Cons.IH [OF idx(3)] have "offset_of (contiguous_strides ns) rest < prod_list ns" .
  then have "i * prod_list ns + offset_of (contiguous_strides ns) rest < Suc i * prod_list ns"
    by simp
  also from idx(2) have "\<dots> \<le> n * prod_list ns" by (intro mult_le_mono1) simp
  finally show ?case by (simp add: idx(1) p offset_of_Cons)
qed

lemma offset_inj:
  "idx \<in> set (multi_indices ns) \<Longrightarrow> idx' \<in> set (multi_indices ns) \<Longrightarrow>
   offset_of (contiguous_strides ns) idx = offset_of (contiguous_strides ns) idx' \<Longrightarrow> idx = idx'"
proof (induction ns arbitrary: idx idx')
  case Nil
  then show ?case by simp
next
  case (Cons n ns)
  from Cons.prems(1) obtain i a where idx: "idx = i # a" "a \<in> set (multi_indices ns)" by auto
  from Cons.prems(2) obtain j b where idx': "idx' = j # b" "b \<in> set (multi_indices ns)" by auto
  let ?P = "prod_list ns" and ?o = "offset_of (contiguous_strides ns)"
  from multi_indices_positive [OF idx(2)] have p: "map (max (Suc 0)) ns = ns" "0 < ?P"
    by simp_all
  from offset_bound [OF idx(2)] offset_bound [OF idx'(2)] have b: "?o a < ?P" "?o b < ?P" .
  from Cons.prems(3) have e: "i * ?P + ?o a = j * ?P + ?o b"
    by (simp add: idx idx' p offset_of_Cons)
  from e b have "(i * ?P + ?o a) div ?P = (j * ?P + ?o b) div ?P" by simp
  with b p(2) have ij: "i = j" by simp
  with e have "?o a = ?o b" by simp
  from Cons.IH [OF idx(2) idx'(2) this] ij show ?case by (simp add: idx idx')
qed

lemma distinct_offsets:
  "distinct (map (offset_of (contiguous_strides ns)) (multi_indices ns))"
  by (auto simp: distinct_map distinct_multi_indices intro!: inj_onI offset_inj)

lemma invoke_storage_length:
  "length (storage (fst (invoke f mem sd p0 p1 p2 outs))) = length (storage (fst outs))
   \<and> length (storage (snd (invoke f mem sd p0 p1 p2 outs))) = length (storage (snd outs))"
  by (simp add: invoke_def split: prod.splits)

lemma invoke_storage_other:
  "(p \<noteq> p0 \<longrightarrow> storage (fst (invoke f mem sd p0 p1 p2 outs)) ! p = storage (fst outs) ! p)
   \<and> (p \<noteq> p1 \<longrightarrow> storage (snd (invoke f mem sd p0 p1 p2 outs)) ! p = storage (snd outs) ! p)"
  by (simp add: invoke_def split: prod.splits)

lemma invoke_storage_written:
  "(p0 < length (storage (fst outs)) \<longrightarrow>
      storage (fst (invoke f mem sd p0 p1 p2 outs)) ! p0 = fst (f (\<lambda>j. load mem (p2 + j)) sd))
   \<and> (p1 < length (storage (snd outs)) \<longrightarrow>
      storage (snd (invoke f mem sd p0 p1 p2 outs)) ! p1
        = IntegralV (int (snd (f (\<lambda>j. load mem (p2 + j)) sd))))"
  by (simp add: invoke_def split: prod.splits)

lemma fold_invoke_length:
  "length (storage (fst (fold (\<lambda>i. invoke f mem sd (q0 i) (q1 i) (q2 i)) idxs outs)))
     = length (storage (fst outs))
   \<and> length (storage (snd (fold (\<lambda>i. invoke f mem sd (q0 i) (q1 i) (q2 i)) idxs outs)))
     = length (storage (snd outs))"
  by (induction idxs arbitrary: outs) (simp_all add: invoke_storage_length)

lemma fold_invoke_other:
  "(p \<notin> q0 ` set idxs \<longrightarrow>
      storage (fst (fold (\<lambda>i. invoke f mem sd (q0 i) (q1 i) (q2 i)) idxs outs)) ! p
        = storage (fst outs) ! p)
   \<and> (p \<notin> q1 ` set idxs \<longrightarrow>
      storage (snd (fold (\<lambda>i. invoke f mem sd (q0 i) (q1 i) (q2 i)) idxs outs)) ! p
        = storage (snd outs) ! p)"
  by (induction idxs arbitrary: outs) (simp_all add: invoke_storage_other)

lemma fold_invoke_written:
  assumes "idx \<in> set idxs"
  shows "(distinct (map q0 idxs) \<and> q0 idx < length (storage (fst outs)) \<longrightarrow>
      storage (fst (fold (\<lambda>i. invoke f mem sd (q0 i) (q1 i) (q2 i)) idxs outs)) ! q0 idx
        = fst (f (\<lambda>j. load mem (q2 idx + j)) sd))
   \<and> (distinct (map q1 idxs) \<and> q1 idx < length (storage (snd outs)) \<longrightarrow>
      storage (snd (fold (\<lambda>i. invoke f mem sd (q0 i) (q1 i) (q2 i)) idxs outs)) ! q1 idx
        = IntegralV (int (snd (f (\<lambda>j. load mem (q2 idx + j)) sd))))"
  using assms
proof (induction idxs arbitrary: outs)
  case Nil
  then show ?case by simp
next
  case (Cons a idxs)
  let ?o = "invoke f mem sd (q0 a) (q1 a) (q2 a) outs"
  show ?case
  proof (cases "idx = a")
    case True
    then show ?thesis
      using fold_invoke_other [of "q0 a" q0 idxs f mem sd q1 q2 ?o]
        fold_invoke_other [of "q1 a" q0 idxs f mem sd q1 q2 ?o]
        invoke_storage_written [of "q0 a" outs f mem sd "q1 a" "q2 a"]
      by simp
  next
    case False
    with Cons.prems have "idx \<in> set idxs" by simp
    from Cons.IH [OF this, of ?o] show ?thesis
      by (simp add: invoke_storage_length)
  qed
qed


lemma length_contiguous_strides: "length (contiguous_strides ns) = length ns"
  by (induction ns) simp_all

lemma resize_contiguous:
  assumes "sizes t \<noteq> ns \<or> strides t = contiguous_strides ns \<and> prod_list ns \<le> length (storage t)"
  shows "sizes (resize t ns) = ns \<and> strides (resize t ns) = contiguous_strides ns
       \<and> prod_list ns \<le> length (storage (resize t ns))"
  using assms by (auto simp: resize_def)

lemma operand_strides_same_shape:
  "sizes t = shp \<Longrightarrow> length (strides t) = length shp \<Longrightarrow> operand_strides shp t = strides t"
  by (auto simp: operand_strides_def ndimension_def intro!: nth_equalityI)

lemma operand_strides_squashed:
  "length (strides t) = length (sizes t) \<Longrightarrow> operand_strides ((sizes t)[d := 1]) t = strides t"
proof (cases "d < length (sizes t)")
  case True
  assume "length (strides t) = length (sizes t)"
  with True show ?thesis
    by (intro nth_equalityI) (auto simp: operand_strides_def ndimension_def nth_list_update)
next
  case False
  assume "length (strides t) = length (sizes t)"
  with False have "(sizes t)[d := 1] = sizes t" "length (strides t) = length (sizes t)"
    by (simp_all add: list_update_beyond)
  then show ?thesis by (simp only: operand_strides_same_shape [OF refl])
qed

lemma compare_base_kernel_lane:
  assumes "d < ndimension self" and "length (strides self) = ndimension self"
    and "unsqueeze_outputs result indices d keepdim = (r0, i0)"
    and "sizes r0 \<noteq> (sizes self)[d := 1]
         \<or> strides r0 = contiguous_strides ((sizes self)[d := 1])
           \<and> prod_list ((sizes self)[d := 1]) \<le> length (storage r0)"
    and "sizes i0 \<noteq> (sizes self)[d := 1]
         \<or> strides i0 = contiguous_strides ((sizes self)[d := 1])
           \<and> prod_list ((sizes self)[d := 1]) \<le> length (storage i0)"
    and "idx \<in> set (multi_indices ((sizes self)[d := 1]))"
  shows "storage (fst (compare_base_kernel result indices self d keepdim f))
           ! offset_of (contiguous_strides ((sizes self)[d := 1])) idx
         = fst (f (\<lambda>j. load (storage self) (offset_of (strides self) idx + j)) (strides self ! d))
       \<and> storage (snd (compare_base_kernel result indices self d keepdim f))
           ! offset_of (contiguous_strides ((sizes self)[d := 1])) idx
         = IntegralV (int (snd (f (\<lambda>j. load (storage self) (offset_of (strides self) idx + j))
              (strides self ! d))))"
proof -
  let ?ss = "(sizes self)[d := 1]"
  let ?cs = "contiguous_strides ?ss"
  from assms(1) have ne: "ensure_nonempty_vec (sizes self) = sizes self"
    and sd: "ensure_nonempty_stride self d = strides self ! d"
    and nonempty: "?ss \<noteq> []"
    by (auto simp: ensure_nonempty_vec_def ensure_nonempty_stride_def ndimension_def)
  let ?r = "resize r0 ?ss" and ?i = "resize i0 ?ss"
  from resize_contiguous [OF assms(4)]
  have r: "sizes ?r = ?ss" "strides ?r = ?cs" "prod_list ?ss \<le> length (storage ?r)" by simp_all
  from resize_contiguous [OF assms(5)]
  have i: "sizes ?i = ?ss" "strides ?i = ?cs" "prod_list ?ss \<le> length (storage ?i)" by simp_all
  let ?it = "build (declare_static_shape (sizes self) d) [?r, ?i, self]"
  let ?lp = "loop f (storage self) (strides self ! d)"
  have it: "shape ?it = ?ss" "operands ?it = [?r, ?i, self]"
    by (simp_all add: build_def declare_static_shape_def)
  have os: "operand_strides ?ss ?r = ?cs" "operand_strides ?ss ?i = ?cs"
    "operand_strides ?ss self = strides self"
  proof -
    from operand_strides_same_shape [OF r(1)] r(2)
    show "operand_strides ?ss ?r = ?cs" by (simp add: length_contiguous_strides)
    from operand_strides_same_shape [OF i(1)] i(2)
    show "operand_strides ?ss ?i = ?cs" by (simp add: length_contiguous_strides)
    from assms(2) show "operand_strides ?ss self = strides self"
      unfolding ndimension_def by (rule operand_strides_squashed)
  qed
  let ?g = "\<lambda>idx. invoke f (storage self) (strides self ! d) (offset_of ?cs idx)
      (offset_of ?cs idx) (offset_of (strides self) idx)"
  have fe: "for_each ?it ?lp (?r, ?i) = fold ?g (multi_indices ?ss) (?r, ?i)"
    using for_each_fold [of ?it ?r ?i self f "storage self" "strides self ! d" "(?r, ?i)"]
      nonempty
    by (simp only: it os) simp
  from offset_bound [OF assms(6)] r(3) i(3)
  have b: "offset_of ?cs idx < length (storage (fst (?r, ?i)))"
    "offset_of ?cs idx < length (storage (snd (?r, ?i)))" by simp_all
  from fold_invoke_written [OF assms(6), of "offset_of ?cs" "(?r, ?i)" f "storage self"
      "strides self ! d" "offset_of ?cs" "offset_of (strides self)"] b distinct_offsets [of ?ss]
  have w: "storage (fst (fold ?g (multi_indices ?ss) (?r, ?i))) ! offset_of ?cs idx
         = fst (f (\<lambda>j. load (storage self) (offset_of (strides self) idx + j)) (strides self ! d))"
    "storage (snd (fold ?g (multi_indices ?ss) (?r, ?i))) ! offset_of ?cs idx
         = IntegralV (int (snd (f (\<lambda>j. load (storage self) (offset_of (strides self) idx + j))
              (strides self ! d))))"
    by simp_all
  obtain r1 i1 where ri: "fold ?g (multi_indices ?ss) (?r, ?i) = (r1, i1)"
    by (cases "fold ?g (multi_indices ?ss) (?r, ?i)")
  have cb: "compare_base_kernel result indices self d keepdim f
      = (if \<not> keepdim then (squeeze r1 d, squeeze i1 d) else (r1, i1))"
    unfolding compare_base_kernel_def Let_def ne assms(3) prod.case sd fe ri by simp
  from w ri have "storage r1 ! offset_of ?cs idx
         = fst (f (\<lambda>j. load (storage self) (offset_of (strides self) idx + j)) (strides self ! d))"
    "storage i1 ! offset_of ?cs idx
         = IntegralV (int (snd (f (\<lambda>j. load (storage self) (offset_of (strides self) idx + j))
              (strides self ! d))))"
    by simp_all
  then show ?thesis by (simp add: cb squeeze_def)
qed


lemma kernel_lane_results:
  assumes "maybe_wrap_dim d (ndimension self) = Inr w" and "0 < ndimension self"
    and "length (strides self) = ndimension self"
    and "scalar_type result = scalar_type self" and "scalar_type indice = kLong"
    and "dispatch_all_types_and_complex_and kBool (scalar_type self)"
    and "unsqueeze_outputs result indice w keepdim = (r0, i0)"
    and "sizes r0 \<noteq> (sizes self)[w := 1]
         \<or> strides r0 = contiguous_strides ((sizes self)[w := 1])
           \<and> prod_list ((sizes self)[w := 1]) \<le> length (storage r0)"
    and "sizes i0 \<noteq> (sizes self)[w := 1]
         \<or> strides i0 = contiguous_strides ((sizes self)[w := 1])
           \<and> prod_list ((sizes self)[w := 1]) \<le> length (storage i0)"
    and "idx \<in> set (multi_indices ((sizes self)[w := 1]))"
    and "lane = (\<lambda>j. load (storage self) (offset_of (strides self) idx + j))"
    and "p = offset_of (contiguous_strides ((sizes self)[w := 1])) idx"
  shows "(storage (fst (snd (min_kernel_impl h result indice self d keepdim))) ! p,
          storage (snd (snd (min_kernel_impl h result indice self d keepdim))) ! p)
           = map_prod id (IntegralV \<circ> int) (min_scan h (sizes self ! w) lane (strides self ! w))
       \<and> (storage (fst (snd (max_kernel_impl h result indice self d keepdim))) ! p,
          storage (snd (snd (max_kernel_impl h result indice self d keepdim))) ! p)
           = map_prod id (IntegralV \<circ> int) (max_scan h (sizes self ! w) lane (strides self ! w))"
proof -
  from assms(1,2) have w: "w < ndimension self" by (rule maybe_wrap_dim_Inr)
  from assms(2) have n: "ensure_nonempty_size self w = sizes self ! w"
    by (simp add: ensure_nonempty_size_def)
  from compare_base_kernel_lane [OF w assms(3,7,8,9,10), of "min_scan h (sizes self ! w)"]
    compare_base_kernel_lane [OF w assms(3,7,8,9,10), of "max_scan h (sizes self ! w)"]
  show ?thesis
    using assms(1,4,5,6)
    by (simp add: min_kernel_impl_def max_kernel_impl_def Let_def n assms(11,12)
        prod_eq_iff)
qed

text \<open>
  The scenario of section 8: the minima of the rows of \<open>[[1,5,2],[9,0,3]]\<close> are 1 and 0,
  at the indices 0 and 1; the maxima are 5 and 9, at the indices 1 and 0.
\<close>

lemma scenario_min:
  "min_kernel_impl h (fresh_output kLong) (fresh_output kLong) scenario_input 1 False
     = (None,
        \<lparr>scalar_type = kLong, sizes = [2], strides = [1],
           storage = [IntegralV 1, IntegralV 0]\<rparr>,
        \<lparr>scalar_type = kLong, sizes = [2], strides = [1],
           storage = [IntegralV 0, IntegralV 1]\<rparr>)"
  by code_simp

lemma scenario_max:
  "max_kernel_impl h (fresh_output kLong) (fresh_output kLong) scenario_input 1 False
     = (None,
        \<lparr>scalar_type = kLong, sizes = [2], strides = [1],
           storage = [IntegralV 5, IntegralV 9]\<rparr>,
        \<lparr>scalar_type = kLong, sizes = [2], strides = [1],
           storage = [IntegralV 1, IntegralV 0]\<rparr>)"
  by code_simp

text \<open>
  The example of section 8 for the complex domain: of \<open>3 + 4i\<close> and \<open>1 + i\<close>, of
  magnitudes 5 and \<open>sqrt 2\<close>, the minimum scan selects the second, with any library
  that returns 5 for the first modulus and less for the second.
\<close>

lemma complex_ordering_example:
  assumes "h 3 4 = Some 5" and "h 1 1 = Some m" and "m < 5"
  shows "min_scan h 2 (load [ComplexV (Finite 3) (Finite 4), ComplexV (Finite 1) (Finite 1)]) 1
     = (ComplexV (Finite 1) (Finite 1), 1)"
  using assms by (simp add: min_scan_def min_loop.simps load_def numeral_2_eq_2)

text \<open>
  Two complex elements whose moduli the library rounds to one value (or both to
  +infinity) have equal keys, whatever their exact moduli: neither scan updates, and
  both return the first element with the index 0.
\<close>

lemma rounded_moduli_tie:
  assumes "h a b = h c e"
  shows "min_scan h 2 (load [ComplexV (Finite a) (Finite b), ComplexV (Finite c) (Finite e)]) 1
       = (ComplexV (Finite a) (Finite b), 0)
     \<and> max_scan h 2 (load [ComplexV (Finite a) (Finite b), ComplexV (Finite c) (Finite e)]) 1
       = (ComplexV (Finite a) (Finite b), 0)"
  using assms
  by (cases "h c e")
     (simp_all add: min_scan_def max_scan_def min_loop.simps max_loop.simps load_def
        numeral_2_eq_2)

section \<open>The elements the kernels write\<close>

text \<open>
  The engine changes neither the strides of the outputs nor the length of their
  storage; an unsqueezed contiguous output of the iteration shape is contiguous; so the
  element of each returned output at a lane's index is what the scan of that lane
  returned, and the scan reads the elements of the input along the axis.
\<close>

lemma invoke_layout:
  "strides (fst (invoke f mem sd p0 p1 p2 outs)) = strides (fst outs)
   \<and> strides (snd (invoke f mem sd p0 p1 p2 outs)) = strides (snd outs)"
  by (simp add: invoke_def split: prod.splits)

lemma loop_from_layout:
  "strides (fst (loop_from f mem sd p0 p1 p2 strds n outs)) = strides (fst outs)
   \<and> strides (snd (loop_from f mem sd p0 p1 p2 strds n outs)) = strides (snd outs)
   \<and> length (storage (fst (loop_from f mem sd p0 p1 p2 strds n outs)))
       = length (storage (fst outs))
   \<and> length (storage (snd (loop_from f mem sd p0 p1 p2 strds n outs)))
       = length (storage (snd outs))"
  by (induction n arbitrary: p0 p1 p2 outs) (simp_all add: invoke_layout invoke_storage_length)

lemma for_each_layout:
  "strides (fst (for_each iter (loop f mem sd) outs)) = strides (fst outs)
   \<and> strides (snd (for_each iter (loop f mem sd) outs)) = strides (snd outs)
   \<and> length (storage (fst (for_each iter (loop f mem sd) outs))) = length (storage (fst outs))
   \<and> length (storage (snd (for_each iter (loop f mem sd) outs))) = length (storage (snd outs))"
proof -
  let ?P = "\<lambda>s. strides (fst s) = strides (fst outs) \<and> strides (snd s) = strides (snd outs)
    \<and> length (storage (fst s)) = length (storage (fst outs))
    \<and> length (storage (snd s)) = length (storage (snd outs))"
  have step: "?P (loop f mem sd a b n s)" if "?P s" for a b n s
    using that loop_from_layout [of f mem sd "a ! 0" "a ! 1" "a ! 2" b n s]
    by (simp add: loop_def)
  show ?thesis
    unfolding for_each_def Let_def
    by (cases "shape iter = []") (auto intro!: fold_invariant [where P = ?P] step)
qed

lemma compare_base_kernel_layout:
  assumes "d < ndimension self"
    and "unsqueeze_outputs result indices d keepdim = (r0, i0)"
    and "sizes r0 \<noteq> (sizes self)[d := 1]
         \<or> strides r0 = contiguous_strides ((sizes self)[d := 1])
           \<and> prod_list ((sizes self)[d := 1]) \<le> length (storage r0)"
    and "sizes i0 \<noteq> (sizes self)[d := 1]
         \<or> strides i0 = contiguous_strides ((sizes self)[d := 1])
           \<and> prod_list ((sizes self)[d := 1]) \<le> length (storage i0)"
    and "out = fst (compare_base_kernel result indices self d keepdim f)
         \<or> out = snd (compare_base_kernel result indices self d keepdim f)"
  shows "strides out
           = (if keepdim then contiguous_strides ((sizes self)[d := 1])
              else take d (contiguous_strides ((sizes self)[d := 1]))
                 @ drop (Suc d) (contiguous_strides ((sizes self)[d := 1])))
       \<and> prod_list ((sizes self)[d := 1]) \<le> length (storage out)"
proof -
  let ?ss = "(sizes self)[d := 1]"
  let ?cs = "contiguous_strides ?ss"
  from assms(1) have ne: "ensure_nonempty_vec (sizes self) = sizes self"
    by (auto simp: ensure_nonempty_vec_def ndimension_def)
  let ?r = "resize r0 ?ss" and ?i = "resize i0 ?ss"
  from resize_contiguous [OF assms(3)]
  have r: "sizes ?r = ?ss" "strides ?r = ?cs" "prod_list ?ss \<le> length (storage ?r)" by simp_all
  from resize_contiguous [OF assms(4)]
  have i: "sizes ?i = ?ss" "strides ?i = ?cs" "prod_list ?ss \<le> length (storage ?i)" by simp_all
  let ?it = "build (declare_static_shape (sizes self) d) [?r, ?i, self]"
  let ?lp = "loop f (storage self) (ensure_nonempty_stride self d)"
  obtain r1 i1 where fe: "for_each ?it ?lp (?r, ?i) = (r1, i1)"
    by (cases "for_each ?it ?lp (?r, ?i)")
  from for_each_sizes [of ?it f "storage self" "ensure_nonempty_stride self d" "(?r, ?i)"] fe
  have s1: "sizes r1 = ?ss" "sizes i1 = ?ss" by (simp_all add: sizes_resize)
  from for_each_layout [of ?it f "storage self" "ensure_nonempty_stride self d" "(?r, ?i)"]
    fe r i
  have l1: "strides r1 = ?cs" "strides i1 = ?cs" "prod_list ?ss \<le> length (storage r1)"
    "prod_list ?ss \<le> length (storage i1)" by simp_all
  have cb: "compare_base_kernel result indices self d keepdim f
      = (if \<not> keepdim then (squeeze r1 d, squeeze i1 d) else (r1, i1))"
    unfolding compare_base_kernel_def Let_def ne assms(2) prod.case fe by simp
  from assms(1) have dl: "d < length (sizes self)" by (simp add: ndimension_def)
  with s1 l1 assms(5) show ?thesis
    by (auto simp: cb squeeze_def ndimension_def)
qed

lemma prod_list_take_drop:
  "prod_list (map f (take w s)) * prod_list (map f (drop w s)) = prod_list (map f s)"
  by (metis append_take_drop_id map_append prod_list.append)

lemma contiguous_strides_insert:
  "w \<le> length s \<Longrightarrow> contiguous_strides (take w s @ 1 # drop w s)
     = take w (contiguous_strides s) @ prod_list (map (max 1) (drop w s))
         # drop w (contiguous_strides s)"
proof (induction s arbitrary: w)
  case Nil
  then show ?case by simp
next
  case (Cons a s)
  show ?case
  proof (cases w)
    case 0
    then show ?thesis by simp
  next
    case (Suc v)
    with Cons.prems have "v \<le> length s" by simp
    from Cons.IH [OF this] prod_list_take_drop [of "max 1" v s]
    show ?thesis by (simp add: Suc)
  qed
qed

lemma contiguous_strides_nth:
  "w < length s \<Longrightarrow> contiguous_strides s ! w = prod_list (map (max 1) (drop (Suc w) s))"
proof (induction s arbitrary: w)
  case Nil
  then show ?case by simp
next
  case (Cons a s)
  then show ?case by (cases w) simp_all
qed

lemma unsqueeze_contiguous:
  assumes "contiguous t" and "d \<le> ndimension t" and "map (max 1) ss = ss"
    and "sizes (unsqueeze t d) = ss"
  shows "strides (unsqueeze t d) = contiguous_strides ss
       \<and> prod_list ss \<le> length (storage (unsqueeze t d))"
proof -
  let ?s = "sizes t"
  from assms(1) have c: "strides t = contiguous_strides ?s" "prod_list ?s \<le> length (storage t)"
    by (simp_all add: contiguous_def)
  from assms(4) have ss: "ss = take d ?s @ 1 # drop d ?s" by (simp add: unsqueeze_def)
  from assms(2) have dl: "d \<le> length ?s" by (simp add: ndimension_def)
  have x: "(if d \<ge> ndimension t then 1 else ?s ! d * strides t ! d)
      = prod_list (map (max 1) (drop d ?s))"
  proof (cases "d < length ?s")
    case True
    from assms(3) have "map (max 1) ss ! Suc d = ss ! Suc d" by simp
    with True dl have "max 1 (?s ! d) = ?s ! d"
      by (simp add: ss nth_append min_def)
    moreover from True have "drop d ?s = ?s ! d # drop (Suc d) ?s"
      by (simp add: Cons_nth_drop_Suc)
    ultimately show ?thesis
      using True by (simp add: ndimension_def c(1) contiguous_strides_nth)
  next
    case False
    with dl show ?thesis by (simp add: ndimension_def)
  qed
  have "prod_list ss = prod_list ?s"
    using prod_list_take_drop [of "\<lambda>x. x" d ?s] by (simp add: ss)
  with c(2) contiguous_strides_insert [OF dl] x show ?thesis
    by (simp add: unsqueeze_def ss c(1))
qed

lemma unsqueeze_outputs_contiguous:
  assumes "contiguous result" and "contiguous indices" and "map (max 1) ss = ss"
    and "unsqueeze_outputs result indices d keepdim = (r0, i0)"
  shows "(sizes r0 \<noteq> ss \<or> strides r0 = contiguous_strides ss \<and> prod_list ss \<le> length (storage r0))
       \<and> (sizes i0 \<noteq> ss \<or> strides i0 = contiguous_strides ss \<and> prod_list ss \<le> length (storage i0))"
proof -
  have one: "sizes t0 \<noteq> ss \<or> strides t0 = contiguous_strides ss \<and> prod_list ss \<le> length (storage t0)"
    if "contiguous t" and "t0 = t \<or> d \<le> ndimension t \<and> t0 = unsqueeze t d" for t t0
    using that unsqueeze_contiguous [OF that(1) _ assms(3), of d]
    by (auto simp: contiguous_def)
  from assms(4) have "r0 = result \<or> d \<le> ndimension result \<and> r0 = unsqueeze result d"
    "i0 = indices \<or> d \<le> ndimension indices \<and> i0 = unsqueeze indices d"
    by (auto simp: unsqueeze_outputs_def split: if_splits)
  with one [OF assms(1)] one [OF assms(2)] show ?thesis by blast
qed

lemma offset_of_append:
  "length a = length c \<Longrightarrow> offset_of (c @ c') (a @ a') = offset_of c a + offset_of c' a'"
  by (simp add: offset_of_def)

lemma offset_of_update:
  assumes "w < length idx" and "length st = length idx" and "idx ! w = 0"
  shows "offset_of st (idx[w := i]) = offset_of st idx + i * st ! w"
proof -
  let ?a = "take w idx" and ?b = "drop (Suc w) idx"
  let ?c = "take w st" and ?d = "drop (Suc w) st"
  from assms(1,2) have st: "st = ?c @ st ! w # ?d" by (simp add: id_take_nth_drop)
  from assms(1) have i1: "idx[w := i] = ?a @ i # ?b" by (rule upd_conv_take_nth_drop)
  from assms(1,3) id_take_nth_drop [of w idx] have i0: "idx = ?a @ 0 # ?b" by simp
  from assms(1,2) have len: "length ?a = length ?c" by simp
  have "offset_of st (idx[w := i]) = offset_of (?c @ st ! w # ?d) (?a @ i # ?b)"
    by (rule arg_cong2 [OF st i1])
  also have "\<dots> = offset_of ?c ?a + (i * st ! w + offset_of ?d ?b)"
    by (simp only: offset_of_append [OF len] offset_of_Cons)
  finally have l: "offset_of st (idx[w := i]) = offset_of ?c ?a + (i * st ! w + offset_of ?d ?b)" .
  have "offset_of st idx = offset_of (?c @ st ! w # ?d) (?a @ 0 # ?b)"
    by (rule arg_cong2 [OF st i0])
  also have "\<dots> = offset_of ?c ?a + (0 * st ! w + offset_of ?d ?b)"
    by (simp only: offset_of_append [OF len] offset_of_Cons)
  finally have "offset_of st idx = offset_of ?c ?a + offset_of ?d ?b" by simp
  with l show ?thesis by simp
qed

lemma offset_of_squeezed:
  assumes "w < length idx" and "length st = length idx" and "idx ! w = 0"
  shows "offset_of (take w st @ drop (Suc w) st) (take w idx @ drop (Suc w) idx)
       = offset_of st idx"
proof -
  let ?a = "take w idx" and ?b = "drop (Suc w) idx"
  let ?c = "take w st" and ?d = "drop (Suc w) st"
  from assms(1,2) have st: "st = ?c @ st ! w # ?d" by (simp add: id_take_nth_drop)
  from assms(1,3) id_take_nth_drop [of w idx] have i0: "idx = ?a @ 0 # ?b" by simp
  from assms(1,2) have len: "length ?a = length ?c" by simp
  have "offset_of st idx = offset_of (?c @ st ! w # ?d) (?a @ 0 # ?b)"
    by (rule arg_cong2 [OF st i0])
  also have "\<dots> = offset_of ?c ?a + (0 * st ! w + offset_of ?d ?b)"
    by (simp only: offset_of_append [OF len] offset_of_Cons)
  finally have "offset_of st idx = offset_of ?c ?a + offset_of ?d ?b" by simp
  then show ?thesis by (simp only: offset_of_append [OF len])
qed

lemma multi_indices_nth:
  "idx \<in> set (multi_indices ns) \<Longrightarrow> k < length ns \<Longrightarrow> idx ! k < ns ! k"
proof (induction ns arbitrary: idx k)
  case Nil
  then show ?case by simp
next
  case (Cons n ns)
  then show ?case by (cases k) auto
qed


lemma kernel_lane_elements:
  assumes "maybe_wrap_dim d (ndimension self) = Inr w" and "0 < ndimension self"
    and "length (strides self) = ndimension self"
    and "scalar_type result = scalar_type self" and "scalar_type indice = kLong"
    and "dispatch_all_types_and_complex_and kBool (scalar_type self)"
    and "contiguous result" and "contiguous indice"
    and "idx \<in> set (multi_indices ((sizes self)[w := 1]))"
    and "lane = (\<lambda>j. load (storage self) (offset_of (strides self) idx + j))"
  shows "fst (min_kernel_impl h result indice self d keepdim) = None"
    and "fst (max_kernel_impl h result indice self d keepdim) = None"
    and "element_at (fst (snd (min_kernel_impl h result indice self d keepdim)))
           (output_index idx w keepdim)
         = fst (min_scan h (sizes self ! w) lane (strides self ! w))"
    and "element_at (snd (snd (min_kernel_impl h result indice self d keepdim)))
           (output_index idx w keepdim)
         = IntegralV (int (snd (min_scan h (sizes self ! w) lane (strides self ! w))))"
    and "element_at (fst (snd (max_kernel_impl h result indice self d keepdim)))
           (output_index idx w keepdim)
         = fst (max_scan h (sizes self ! w) lane (strides self ! w))"
    and "element_at (snd (snd (max_kernel_impl h result indice self d keepdim)))
           (output_index idx w keepdim)
         = IntegralV (int (snd (max_scan h (sizes self ! w) lane (strides self ! w))))"
    and "element_at self (idx[w := i]) = lane (i * strides self ! w)"
proof -
  let ?ss = "(sizes self)[w := 1]"
  let ?cs = "contiguous_strides ?ss"
  let ?p = "offset_of ?cs idx"
  let ?n = "sizes self ! w"
  from assms(1,2) have w: "w < ndimension self" by (rule maybe_wrap_dim_Inr)
  from assms(2) have n: "ensure_nonempty_size self w = ?n"
    by (simp add: ensure_nonempty_size_def)
  from multi_indices_length [OF assms(9)] have li: "length idx = length (sizes self)" by simp
  from w li have wl: "w < length idx" by (simp add: ndimension_def)
  from multi_indices_nth [OF assms(9), of w] wl li have z: "idx ! w = 0" by simp
  from multi_indices_positive [OF assms(9)] have pos: "map (max 1) ?ss = ?ss" by simp
  obtain r0 i0 where u: "unsqueeze_outputs result indice w keepdim = (r0, i0)"
    by (cases "unsqueeze_outputs result indice w keepdim")
  from unsqueeze_outputs_contiguous [OF assms(7,8) pos u]
  have r0: "sizes r0 \<noteq> ?ss \<or> strides r0 = ?cs \<and> prod_list ?ss \<le> length (storage r0)"
    and i0: "sizes i0 \<noteq> ?ss \<or> strides i0 = ?cs \<and> prod_list ?ss \<le> length (storage i0)"
    by simp_all
  have mn: "min_kernel_impl h result indice self d keepdim
      = (None, compare_base_kernel result indice self w keepdim (min_scan h ?n))"
    and mx: "max_kernel_impl h result indice self d keepdim
      = (None, compare_base_kernel result indice self w keepdim (max_scan h ?n))"
    using assms(1,4,5,6) by (simp_all add: min_kernel_impl_def max_kernel_impl_def Let_def n)
  show "fst (min_kernel_impl h result indice self d keepdim) = None"
    and "fst (max_kernel_impl h result indice self d keepdim) = None"
    by (simp_all add: mn mx)
  have el: "element_at out (output_index idx w keepdim) = storage out ! ?p"
    if "out = fst (compare_base_kernel result indice self w keepdim f)
        \<or> out = snd (compare_base_kernel result indice self w keepdim f)" for out f
  proof -
    from compare_base_kernel_layout [OF w u r0 i0 that]
    have st: "strides out = (if keepdim then ?cs else take w ?cs @ drop (Suc w) ?cs)"
      and len: "prod_list ?ss \<le> length (storage out)" by simp_all
    from li have "length ?cs = length idx" by (simp add: length_contiguous_strides)
    from offset_of_squeezed [OF wl this z]
    have "offset_of (strides out) (output_index idx w keepdim) = ?p"
      by (simp add: st output_index_def)
    moreover from offset_bound [OF assms(9)] len have "?p < length (storage out)" by simp
    ultimately show ?thesis by (simp add: element_at_def load_def)
  qed
  from kernel_lane_results [OF assms(1-6) u r0 i0 assms(9,10) refl, of h]
  have res: "storage (fst (snd (min_kernel_impl h result indice self d keepdim))) ! ?p
        = fst (min_scan h ?n lane (strides self ! w))"
    "storage (snd (snd (min_kernel_impl h result indice self d keepdim))) ! ?p
        = IntegralV (int (snd (min_scan h ?n lane (strides self ! w))))"
    "storage (fst (snd (max_kernel_impl h result indice self d keepdim))) ! ?p
        = fst (max_scan h ?n lane (strides self ! w))"
    "storage (snd (snd (max_kernel_impl h result indice self d keepdim))) ! ?p
        = IntegralV (int (snd (max_scan h ?n lane (strides self ! w))))"
    by (simp_all add: prod_eq_iff)
  from res(1) el [of "fst (snd (min_kernel_impl h result indice self d keepdim))" "min_scan h ?n"]
  show "element_at (fst (snd (min_kernel_impl h result indice self d keepdim)))
           (output_index idx w keepdim)
         = fst (min_scan h ?n lane (strides self ! w))"
    by (simp add: mn)
  from res(2) el [of "snd (snd (min_kernel_impl h result indice self d keepdim))" "min_scan h ?n"]
  show "element_at (snd (snd (min_kernel_impl h result indice self d keepdim)))
           (output_index idx w keepdim)
         = IntegralV (int (snd (min_scan h ?n lane (strides self ! w))))"
    by (simp add: mn)
  from res(3) el [of "fst (snd (max_kernel_impl h result indice self d keepdim))" "max_scan h ?n"]
  show "element_at (fst (snd (max_kernel_impl h result indice self d keepdim)))
           (output_index idx w keepdim)
         = fst (max_scan h ?n lane (strides self ! w))"
    by (simp add: mx)
  from res(4) el [of "snd (snd (max_kernel_impl h result indice self d keepdim))" "max_scan h ?n"]
  show "element_at (snd (snd (max_kernel_impl h result indice self d keepdim)))
           (output_index idx w keepdim)
         = IntegralV (int (snd (max_scan h ?n lane (strides self ! w))))"
    by (simp add: mx)
  from assms(3) li have "length (strides self) = length idx" by (simp add: ndimension_def)
  from offset_of_update [OF wl this z, of i]
  show "element_at self (idx[w := i]) = lane (i * strides self ! w)"
    by (simp add: element_at_def assms(10))
qed

lemma lane_extremum:
  assumes "0 < n" and "\<forall>i<n. typed st (data (i * s)) \<and> \<not> isnan (data (i * s))"
  shows "(\<exists>k<n. min_scan h n data s = (data (k * s), k)
            \<and> (\<forall>j<n. key_ge (zabs h (data (j * s))) (zabs h (data (k * s))))
            \<and> (\<forall>j<k. zabs h (data (j * s)) \<noteq> zabs h (data (k * s))))
       \<and> (\<exists>k<n. max_scan h n data s = (data (k * s), k)
            \<and> (\<forall>j<n. key_le (zabs h (data (j * s))) (zabs h (data (k * s))))
            \<and> (\<forall>j<k. zabs h (data (j * s)) \<noteq> zabs h (data (k * s))))"
proof -
  from assms(2) have keys: "\<forall>j<n. ordered (zabs h (data (j * s)))
      \<and> kind (zabs h (data (j * s))) = kind_of st \<and> \<not> isnan (data (j * s))"
    using typed_key by blast
  have neq: "zabs h (data (j * s)) \<noteq> zabs h (data (k * s))"
    if "k < n" and "\<not> key_ge (zabs h (data (k * s))) (zabs h (data (j * s)))" for j k
    using that keys key_ge_refl [of "zabs h (data (k * s))"] by auto
  have neq': "zabs h (data (j * s)) \<noteq> zabs h (data (k * s))"
    if "k < n" and "\<not> key_le (zabs h (data (k * s))) (zabs h (data (j * s)))" for j k
    using that keys key_le_refl [of "zabs h (data (k * s))"] by auto
  from min_scan_extremum [OF assms(1) keys] neq
  have "\<exists>k<n. min_scan h n data s = (data (k * s), k)
            \<and> (\<forall>j<n. key_ge (zabs h (data (j * s))) (zabs h (data (k * s))))
            \<and> (\<forall>j<k. zabs h (data (j * s)) \<noteq> zabs h (data (k * s)))"
    by blast
  moreover from max_scan_extremum [OF assms(1) keys] neq'
  have "\<exists>k<n. max_scan h n data s = (data (k * s), k)
            \<and> (\<forall>j<n. key_le (zabs h (data (j * s))) (zabs h (data (k * s))))
            \<and> (\<forall>j<k. zabs h (data (j * s)) \<noteq> zabs h (data (k * s)))"
    by blast
  ultimately show ?thesis by blast
qed

lemma all_less_3: "(\<forall>i<3::nat. P i) = (P 0 \<and> P 1 \<and> P 2)"
  by (auto simp: less_Suc_eq numeral_eq_Suc)

section \<open>Properties of the element-wise kernels\<close>

lemma fp_eq_iff: "fp_eq a b = (a = b \<and> a \<noteq> NaN)"
  by (cases a; cases b) auto

lemma cpu_kernel3_nth:
  "length xs = length cs \<Longrightarrow> length ys = length cs \<Longrightarrow>
   cpu_kernel3 op cs xs ys = map (\<lambda>i. op (cs ! i) (xs ! i) (ys ! i)) [0..<length cs]"
  by (rule nth_equalityI) (simp_all add: cpu_kernel3_def)

section \<open>The claims\<close>

text \<open>
  C1. Take an input of rank at least 1, an axis in range, contiguous outputs of the
  right element types, and a lane (an index \<open>idx\<close> of the input's shape with the axis
  at extent 1) along which the axis has at least one element, all of the input's element
  type and none of them NaN. Then \<open>min_kernel_impl\<close> raises nothing and the outputs it
  returns hold, at the index of the lane, an element of the lane whose key no key of the
  lane is below and the position along the axis of the first element that has this key;
  \<open>max_kernel_impl\<close> likewise, with no key of the lane above. The key is the element
  itself for the real-valued domains and, for the complex ones, the modulus as the
  library rounds it to the component type, whatever that rounding \<open>h\<close> is.
\<close>

theorem no_nan_extremum:
  assumes "maybe_wrap_dim d (ndimension self) = Inr w" and "0 < ndimension self"
    and "length (strides self) = ndimension self"
    and "scalar_type result = scalar_type self" and "scalar_type indice = kLong"
    and "dispatch_all_types_and_complex_and kBool (scalar_type self)"
    and "contiguous result" and "contiguous indice"
    and "idx \<in> set (multi_indices ((sizes self)[w := 1]))"
    and "0 < sizes self ! w"
    and "\<forall>i < sizes self ! w. typed (scalar_type self) (element_at self (idx[w := i]))
           \<and> \<not> isnan (element_at self (idx[w := i]))"
  shows "fst (min_kernel_impl h result indice self d keepdim) = None
       \<and> (\<exists>k < sizes self ! w.
            element_at (fst (snd (min_kernel_impl h result indice self d keepdim)))
                (output_index idx w keepdim) = element_at self (idx[w := k])
          \<and> element_at (snd (snd (min_kernel_impl h result indice self d keepdim)))
                (output_index idx w keepdim) = IntegralV (int k)
          \<and> (\<forall>j < sizes self ! w. key_ge (zabs h (element_at self (idx[w := j])))
                                        (zabs h (element_at self (idx[w := k]))))
          \<and> (\<forall>j<k. zabs h (element_at self (idx[w := j]))
                      \<noteq> zabs h (element_at self (idx[w := k]))))
       \<and> fst (max_kernel_impl h result indice self d keepdim) = None
       \<and> (\<exists>k < sizes self ! w.
            element_at (fst (snd (max_kernel_impl h result indice self d keepdim)))
                (output_index idx w keepdim) = element_at self (idx[w := k])
          \<and> element_at (snd (snd (max_kernel_impl h result indice self d keepdim)))
                (output_index idx w keepdim) = IntegralV (int k)
          \<and> (\<forall>j < sizes self ! w. key_le (zabs h (element_at self (idx[w := j])))
                                        (zabs h (element_at self (idx[w := k]))))
          \<and> (\<forall>j<k. zabs h (element_at self (idx[w := j]))
                      \<noteq> zabs h (element_at self (idx[w := k]))))"
proof -
  define lane where "lane = (\<lambda>j. load (storage self) (offset_of (strides self) idx + j))"
  let ?n = "sizes self ! w" and ?s = "strides self ! w"
  note k = kernel_lane_elements [OF assms(1-9) lane_def]
  have e: "element_at self (idx[w := i]) = lane (i * ?s)" for i by (rule k(7))
  from assms(11) have "\<forall>i<?n. typed (scalar_type self) (lane (i * ?s)) \<and> \<not> isnan (lane (i * ?s))"
    by (simp only: e)
  from lane_extremum [OF assms(10) this, of h]
  show ?thesis unfolding e k(1,2,3,4,5,6) by auto
qed

theorem no_nan_extremum_witness:
  "fst (min_kernel_impl sample_hypot (fresh_output kLong) (fresh_output kLong)
          scenario_input 1 False) = None
   \<and> (\<exists>k<3. element_at (fst (snd (min_kernel_impl sample_hypot (fresh_output kLong)
                (fresh_output kLong) scenario_input 1 False))) [1]
              = element_at scenario_input [1, k]
          \<and> element_at (snd (snd (min_kernel_impl sample_hypot (fresh_output kLong)
                (fresh_output kLong) scenario_input 1 False))) [1] = IntegralV (int k)
          \<and> (\<forall>j<3. key_ge (zabs sample_hypot (element_at scenario_input [1, j]))
                           (zabs sample_hypot (element_at scenario_input [1, k])))
          \<and> (\<forall>j<k. zabs sample_hypot (element_at scenario_input [1, j])
                      \<noteq> zabs sample_hypot (element_at scenario_input [1, k])))
   \<and> fst (max_kernel_impl sample_hypot (fresh_output kLong) (fresh_output kLong)
          scenario_input 1 False) = None
   \<and> (\<exists>k<3. element_at (fst (snd (max_kernel_impl sample_hypot (fresh_output kLong)
                (fresh_output kLong) scenario_input 1 False))) [1]
              = element_at scenario_input [1, k]
          \<and> element_at (snd (snd (max_kernel_impl sample_hypot (fresh_output kLong)
                (fresh_output kLong) scenario_input 1 False))) [1] = IntegralV (int k)
          \<and> (\<forall>j<3. key_le (zabs sample_hypot (element_at scenario_input [1, j]))
                           (zabs sample_hypot (element_at scenario_input [1, k])))
          \<and> (\<forall>j<k. zabs sample_hypot (element_at scenario_input [1, j])
                      \<noteq> zabs sample_hypot (element_at scenario_input [1, k])))"
proof -
  have a: "maybe_wrap_dim 1 (ndimension scenario_input) = Inr 1"
    "0 < ndimension scenario_input"
    "length (strides scenario_input) = ndimension scenario_input"
    "scalar_type (fresh_output kLong) = scalar_type scenario_input"
    "scalar_type (fresh_output kLong) = kLong"
    "dispatch_all_types_and_complex_and kBool (scalar_type scenario_input)"
    "contiguous (fresh_output kLong)"
    "[1, 0] \<in> set (multi_indices ((sizes scenario_input)[1 := 1]))"
    "0 < sizes scenario_input ! 1"
    by (simp_all add: maybe_wrap_dim_def ndimension_def scenario_input_def fresh_output_def
        dispatch_all_types_and_complex_and_def dispatch_all_types_and_complex_def
        contiguous_def)
  have b: "\<forall>i < sizes scenario_input ! 1.
      typed (scalar_type scenario_input) (element_at scenario_input ([1, 0][1 := i]))
      \<and> \<not> isnan (element_at scenario_input ([1, 0][1 := i]))"
    by (simp add: scenario_input_def all_less_3 element_at_def offset_of_def load_def)
  from no_nan_extremum [OF a(1-7) a(7-9) b, of sample_hypot False]
  show ?thesis by (simp add: output_index_def scenario_input_def)
qed

text \<open>
  C2, as amended. In a lane whose first NaN element is at position \<open>k\<close> and has a NaN key
  (every floating NaN has; a complex NaN has unless one of its components is infinite),
  both scans end at \<open>k\<close>: they return that element and the index \<open>k\<close>, whatever the
  lane holds after \<open>k\<close>.
\<close>

theorem nan_poisoning:
  assumes "k < n" and "isnan (data (k * s))" and "\<forall>j<k. \<not> isnan (data (j * s))"
    and "key_isnan (zabs h (data (k * s)))"
    and "\<forall>j\<le>k. data' (j * s) = data (j * s)"
  shows "min_scan h n data' s = (data (k * s), k) \<and> max_scan h n data' s = (data (k * s), k)"
proof -
  from assms(5) have e: "data' (k * s) = data (k * s)" "\<forall>j<k. data' (j * s) = data (j * s)"
    by simp_all
  from assms(1-4) e have a: "isnan (data' (k * s))" "key_isnan (zabs h (data' (k * s)))"
    "\<forall>j<k. \<not> isnan (data' (j * s))" by simp_all
  have le: "0 \<le> k" by simp
  from min_loop_nan [OF assms(1) a(1,2,3) le] max_loop_nan [OF assms(1) a(1,2,3) le] e(1)
  show ?thesis by (simp add: min_scan_def max_scan_def)
qed

theorem nan_poisoning_witness:
  "min_scan sample_hypot 3 (load nan_lane) 1 = (FloatV NaN, 1)
   \<and> max_scan sample_hypot 3 (load nan_lane) 1 = (FloatV NaN, 1)"
  using nan_poisoning [where k = 1 and n = 3 and data = "load nan_lane" and s = 1
      and data' = "load nan_lane" and h = sample_hypot]
  by (simp add: load_def nan_lane_def)

text \<open>
  C2 as stated fails on a complex lane: the modulus of \<open>inf + NaN i\<close> is +infinity, so at
  position 1 of the lane \<open>[1 + 0i, inf + NaN i]\<close> the minimum scan does not update, and
  it returns the element at position 0.
\<close>

theorem complex_nan_counterexample:
  "isnan (load complex_lane 1) \<and> \<not> isnan (load complex_lane 0)
   \<and> min_scan sample_hypot 2 (load complex_lane) 1 = (ComplexV (Finite 1) (Finite 0), 0)"
  by (simp add: load_def complex_lane_def min_scan_def min_loop.simps numeral_2_eq_2
      sample_hypot_def)

text \<open>
  C3, as amended. With \<open>keepdim\<close> false, a size-1 dimension is inserted at position
  \<open>d\<close> into an output, before the resize, exactly when the rank of that output is at
  least \<open>d\<close>; an output of a lower rank is left as it is.
\<close>

theorem unsqueeze_before_resize:
  "sizes (fst (unsqueeze_outputs result indices d False))
     = (if d \<le> ndimension result then take d (sizes result) @ 1 # drop d (sizes result)
        else sizes result)
   \<and> sizes (snd (unsqueeze_outputs result indices d False))
     = (if d \<le> ndimension indices then take d (sizes indices) @ 1 # drop d (sizes indices)
        else sizes indices)
   \<and> (d \<le> ndimension result \<longrightarrow>
        ndimension (fst (unsqueeze_outputs result indices d False)) = Suc (ndimension result)
        \<and> sizes (fst (unsqueeze_outputs result indices d False)) ! d = 1)
   \<and> (d \<le> ndimension indices \<longrightarrow>
        ndimension (snd (unsqueeze_outputs result indices d False)) = Suc (ndimension indices)
        \<and> sizes (snd (unsqueeze_outputs result indices d False)) ! d = 1)"
  by (simp add: unsqueeze_outputs_def unsqueeze_def ndimension_def nth_append)

theorem unsqueeze_before_resize_witness:
  "sizes (fst (unsqueeze_outputs (reused_output kLong) (fresh_output kLong) 1 False)) = [2, 1]
   \<and> sizes (snd (unsqueeze_outputs (reused_output kLong) (fresh_output kLong) 1 False)) = [0, 1]
   \<and> sizes (fst (unsqueeze_outputs (reused_output kLong) (fresh_output kLong) 2 False)) = [2]"
  using unsqueeze_before_resize [of "reused_output kLong" "fresh_output kLong" 1]
    unsqueeze_before_resize [of "reused_output kLong" "fresh_output kLong" 2]
  by (simp add: reused_output_def fresh_output_def ndimension_def)

text \<open>
  C3 as stated fails on an output whose rank is the axis: of rank 1, short of
  \<open>1 + 1\<close>, it is unsqueezed at position 1.
\<close>

theorem unsqueeze_rank_counterexample:
  "ndimension (reused_output kLong) = 1
   \<and> \<not> 1 + 1 \<le> ndimension (reused_output kLong)
   \<and> sizes (reused_output kLong) = [2]
   \<and> sizes (fst (unsqueeze_outputs (reused_output kLong) (fresh_output kLong) 1 False)) = [2, 1]"
  by (simp add: unsqueeze_outputs_def unsqueeze_def ndimension_def reused_output_def)

text \<open>
  C4. For an input of rank at least 1, an axis in range and outputs of the right element
  types, both reductions succeed, and each output then has the input's shape with the
  axis set to extent 1 (\<open>keepdim\<close>) or removed (otherwise); the two shapes are equal.
\<close>

theorem reduction_output_shape:
  assumes "maybe_wrap_dim d (ndimension self) = Inr w" and "0 < ndimension self"
    and "scalar_type result = scalar_type self" and "scalar_type indice = kLong"
    and "dispatch_all_types_and_complex_and kBool (scalar_type self)"
    and "impl = min_kernel_impl h \<or> impl = max_kernel_impl h"
  shows "\<exists>result' indice'. impl result indice self d keepdim = (None, result', indice')
       \<and> sizes result' = (if keepdim then (sizes self)[w := 1]
                          else take w (sizes self) @ drop (Suc w) (sizes self))
       \<and> sizes indice' = sizes result'"
proof -
  from assms(1,2) have w: "w < ndimension self" by (rule maybe_wrap_dim_Inr)
  from assms(6) show ?thesis
  proof
    assume "impl = min_kernel_impl h"
    then show ?thesis
      using assms(1,3,4,5) compare_base_kernel_sizes [OF w, of result indice keepdim
          "min_scan h (ensure_nonempty_size self w)"]
      by (cases "compare_base_kernel result indice self w keepdim
            (min_scan h (ensure_nonempty_size self w))")
         (simp add: min_kernel_impl_def Let_def)
  next
    assume "impl = max_kernel_impl h"
    then show ?thesis
      using assms(1,3,4,5) compare_base_kernel_sizes [OF w, of result indice keepdim
          "max_scan h (ensure_nonempty_size self w)"]
      by (cases "compare_base_kernel result indice self w keepdim
            (max_scan h (ensure_nonempty_size self w))")
         (simp add: max_kernel_impl_def Let_def)
  qed
qed

theorem reduction_output_shape_witness:
  "\<exists>result' indice'.
      min_kernel_impl sample_hypot (fresh_output kLong) (reused_output kLong) scenario_input (- 1) False
        = (None, result', indice')
      \<and> sizes result' = [2] \<and> sizes indice' = sizes result'"
  using reduction_output_shape [where d = "- 1" and self = scenario_input and w = 1
      and result = "fresh_output kLong" and indice = "reused_output kLong"
      and impl = "min_kernel_impl sample_hypot" and h = sample_hypot and keepdim = False]
  by (simp add: maybe_wrap_dim_def ndimension_def scenario_input_def fresh_output_def
      reused_output_def dispatch_all_types_and_complex_and_def
      dispatch_all_types_and_complex_def)



text \<open>
  C6, as amended. When the value output's element type differs from the input's, or the
  index output's is not the 64-bit integer type, both kernels raise and leave both
  outputs as they were: the type mismatch when the axis is in range, and the invalid
  axis, which is tested first, when it is not.
\<close>

theorem type_mismatch_before_mutation:
  assumes "scalar_type result \<noteq> scalar_type self \<or> scalar_type indice \<noteq> kLong"
  shows "min_kernel_impl h result indice self d keepdim
           = (Some (case maybe_wrap_dim d (ndimension self) of
                      Inl e \<Rightarrow> e | Inr wrap_dim \<Rightarrow> TypeMismatch), result, indice)
       \<and> max_kernel_impl h result indice self d keepdim
           = (Some (case maybe_wrap_dim d (ndimension self) of
                      Inl e \<Rightarrow> e | Inr wrap_dim \<Rightarrow> TypeMismatch), result, indice)"
  using assms
  by (auto simp: min_kernel_impl_def max_kernel_impl_def Let_def split: sum.splits)

theorem type_mismatch_before_mutation_witness:
  "min_kernel_impl sample_hypot (fresh_output kInt) (fresh_output kLong) scenario_input 1 False
     = (Some TypeMismatch, fresh_output kInt, fresh_output kLong)
   \<and> max_kernel_impl sample_hypot (fresh_output kLong) (fresh_output kInt) scenario_input 1 False
     = (Some TypeMismatch, fresh_output kLong, fresh_output kInt)"
  using type_mismatch_before_mutation
      [where result = "fresh_output kInt" and self = scenario_input
        and indice = "fresh_output kLong" and h = sample_hypot and d = 1 and keepdim = False]
    type_mismatch_before_mutation
      [where result = "fresh_output kLong" and self = scenario_input
        and indice = "fresh_output kInt" and h = sample_hypot and d = 1 and keepdim = False]
  by (simp add: fresh_output_def scenario_input_def maybe_wrap_dim_def ndimension_def)

text \<open>
  C6 as stated fails when the axis is out of range as well: the error is then the
  invalid axis, not the type mismatch.
\<close>

theorem type_mismatch_counterexample:
  "scalar_type (fresh_output kInt) \<noteq> scalar_type scenario_input
   \<and> min_kernel_impl sample_hypot (fresh_output kInt) (fresh_output kLong) scenario_input 2 False
       = (Some InvalidAxis, fresh_output kInt, fresh_output kLong)
   \<and> max_kernel_impl sample_hypot (fresh_output kInt) (fresh_output kLong) scenario_input 2 False
       = (Some InvalidAxis, fresh_output kInt, fresh_output kLong)"
  by (simp add: min_kernel_impl_def max_kernel_impl_def fresh_output_def scenario_input_def
      maybe_wrap_dim_def ndimension_def)

text \<open>
  C7, as amended. Both kernels raise the invalid-axis error, and leave both outputs as
  they were, whenever the axis is out of range for the input's rank (a tensor of rank 0
  counting as of rank 1), and never otherwise: the kernels do not test the extent along
  the axis.
\<close>

theorem invalid_axis_before_mutation:
  "(d < - max 1 (int (ndimension self)) \<or> max 1 (int (ndimension self)) \<le> d \<longrightarrow>
      min_kernel_impl h result indice self d keepdim = (Some InvalidAxis, result, indice)
    \<and> max_kernel_impl h result indice self d keepdim = (Some InvalidAxis, result, indice))
   \<and> (fst (min_kernel_impl h result indice self d keepdim) = Some InvalidAxis
        \<longleftrightarrow> d < - max 1 (int (ndimension self)) \<or> max 1 (int (ndimension self)) \<le> d)
   \<and> (fst (max_kernel_impl h result indice self d keepdim) = Some InvalidAxis
        \<longleftrightarrow> d < - max 1 (int (ndimension self)) \<or> max 1 (int (ndimension self)) \<le> d)"
  by (auto simp: min_kernel_impl_def max_kernel_impl_def maybe_wrap_dim_def Let_def max_def
      split: if_splits)

theorem invalid_axis_before_mutation_witness:
  "min_kernel_impl sample_hypot (fresh_output kInt) (fresh_output kLong) scenario_input (- 3) False
     = (Some InvalidAxis, fresh_output kInt, fresh_output kLong)
   \<and> max_kernel_impl sample_hypot (fresh_output kInt) (fresh_output kLong) scenario_input (- 3) False
     = (Some InvalidAxis, fresh_output kInt, fresh_output kLong)
   \<and> fst (min_kernel_impl sample_hypot (fresh_output kLong) (fresh_output kLong) scenario_input 1 False)
     \<noteq> Some InvalidAxis"
  using invalid_axis_before_mutation
      [where d = "- 3" and self = scenario_input and h = sample_hypot
        and result = "fresh_output kInt" and indice = "fresh_output kLong"
        and keepdim = False]
    invalid_axis_before_mutation
      [where d = 1 and self = scenario_input and h = sample_hypot
        and result = "fresh_output kLong" and indice = "fresh_output kLong"
        and keepdim = False]
  by (simp add: scenario_input_def ndimension_def)

text \<open>
  C7 as stated fails on an axis of extent zero: on an input of shape \<open>[0, 0]\<close> and the
  axis 0, both kernels return without an error.
\<close>

theorem zero_extent_counterexample:
  "ndimension zero_extent_input = 2 \<and> sizes zero_extent_input ! 0 = 0
   \<and> fst (min_kernel_impl sample_hypot (fresh_output kLong) (fresh_output kLong) zero_extent_input 0 False)
       = None
   \<and> fst (max_kernel_impl sample_hypot (fresh_output kLong) (fresh_output kLong) zero_extent_input 0 False)
       = None"
  by (simp add: min_kernel_impl_def max_kernel_impl_def zero_extent_input_def fresh_output_def
      maybe_wrap_dim_def ndimension_def dispatch_all_types_and_complex_and_def
      dispatch_all_types_and_complex_def Let_def)

text \<open>
  C8. For an element type of the dispatch and operands of one extent, the select writes
  at each position \<open>a\<close>'s element where the condition is nonzero (byte encoding) or true
  (native encoding) and \<open>b\<close>'s element elsewhere; on the two encodings of one
  logical condition the two branches of the kernel give the same output.
\<close>

theorem where_select:
  assumes "dispatch_all_types_and_complex st"
    and "length a = n" and "length b = n" and "length c = n" and "length cs = n"
  shows "where_kernel_impl
           \<lparr>dtype = st, condition = ByteBuffer cs, self_vals = a, other_vals = b\<rparr> kByte
           = Inr (map (\<lambda>i. if cs ! i \<noteq> 0 then a ! i else b ! i) [0..<n])
       \<and> where_kernel_impl
           \<lparr>dtype = st, condition = BoolBuffer c, self_vals = a, other_vals = b\<rparr> kBool
           = Inr (map (\<lambda>i. if c ! i then a ! i else b ! i) [0..<n])
       \<and> where_kernel_impl
           \<lparr>dtype = st, condition = ByteBuffer (map of_bool c), self_vals = a,
              other_vals = b\<rparr> kByte
           = where_kernel_impl
               \<lparr>dtype = st, condition = BoolBuffer c, self_vals = a, other_vals = b\<rparr> kBool"
  using assms by (simp add: where_kernel_impl_def cpu_kernel3_nth)

theorem where_select_witness:
  "where_kernel_impl
      \<lparr>dtype = kLong, condition = ByteBuffer [2, 0], self_vals = [IntegralV 1, IntegralV 2],
         other_vals = [IntegralV 3, IntegralV 4]\<rparr> kByte
     = Inr [IntegralV 1, IntegralV 4]
   \<and> where_kernel_impl
      \<lparr>dtype = kLong, condition = BoolBuffer [True, False],
         self_vals = [IntegralV 1, IntegralV 2], other_vals = [IntegralV 3, IntegralV 4]\<rparr> kBool
     = Inr [IntegralV 1, IntegralV 4]
   \<and> where_kernel_impl
      \<lparr>dtype = kLong, condition = ByteBuffer (map of_bool [True, False]),
         self_vals = [IntegralV 1, IntegralV 2], other_vals = [IntegralV 3, IntegralV 4]\<rparr> kByte
     = where_kernel_impl
      \<lparr>dtype = kLong, condition = BoolBuffer [True, False],
         self_vals = [IntegralV 1, IntegralV 2], other_vals = [IntegralV 3, IntegralV 4]\<rparr> kBool"
  using where_select [of kLong "[IntegralV 1, IntegralV 2]" 2 "[IntegralV 3, IntegralV 4]"
      "[True, False]" "[2, 0]"]
  by (simp add: dispatch_all_types_and_complex_def upt_rec)

text \<open>
  C9. For an input of a floating type, the reduced-precision ones included,
  \<open>isposinf\<close> is true at exactly the elements that are +infinity and \<open>isneginf\<close> at
  exactly those that are -infinity: both are false at a NaN, at a finite value and at
  the other infinity.
\<close>

theorem infinity_predicates:
  assumes "input_dtype iter \<in> {kFloat, kDouble, kHalf, kBFloat16}"
  shows "isposinf_kernel_impl iter = Inr (map (\<lambda>x. x = PosInf) (input iter))
       \<and> isneginf_kernel_impl iter = Inr (map (\<lambda>x. x = NegInf) (input iter))"
  using assms
  by (auto simp: isposinf_kernel_impl_def isneginf_kernel_impl_def
      dispatch_floating_types_and2_def cpu_kernel1_def infinity_def fp_eq_iff)

theorem infinity_predicates_witness:
  "isposinf_kernel_impl \<lparr>input_dtype = kHalf, input = [NaN, Finite 1, NegInf, PosInf]\<rparr>
      = Inr [False, False, False, True]
   \<and> isneginf_kernel_impl \<lparr>input_dtype = kHalf, input = [NaN, Finite 1, NegInf, PosInf]\<rparr>
      = Inr [False, False, True, False]"
  using infinity_predicates
      [of "\<lparr>input_dtype = kHalf, input = [NaN, Finite 1, NegInf, PosInf]\<rparr>"]
  by simp

text \<open>
  C10. The reductions take an input of the boolean element type: with a boolean value
  output, a 64-bit integer index output and an axis in range they raise nothing. No
  boolean is NaN, so that the scan of a boolean lane never leaves early. And for an
  input of rank at least 1, contiguous outputs and a lane of at least one element, the
  outputs the kernels return hold, at the index of the lane, the least (resp. greatest)
  element of the lane under \<open>false < true\<close> and the position along the axis of its
  first occurrence.
\<close>

theorem bool_lanes:
  "(scalar_type self = kBool \<and> scalar_type result = kBool \<and> scalar_type indice = kLong
      \<and> maybe_wrap_dim d (ndimension self) = Inr w \<longrightarrow>
        fst (min_kernel_impl h result indice self d keepdim) = None
      \<and> fst (max_kernel_impl h result indice self d keepdim) = None)
   \<and> (\<forall>p. \<not> isnan (BoolV p))
   \<and> (scalar_type self = kBool \<and> scalar_type result = kBool \<and> scalar_type indice = kLong
      \<and> maybe_wrap_dim d (ndimension self) = Inr w \<and> 0 < ndimension self
      \<and> length (strides self) = ndimension self
      \<and> contiguous result \<and> contiguous indice
      \<and> idx \<in> set (multi_indices ((sizes self)[w := 1]))
      \<and> 0 < sizes self ! w
      \<and> (\<forall>i < sizes self ! w. element_at self (idx[w := i]) = BoolV (b i)) \<longrightarrow>
        (\<exists>k < sizes self ! w.
            element_at (fst (snd (min_kernel_impl h result indice self d keepdim)))
                (output_index idx w keepdim) = BoolV (b k)
          \<and> element_at (snd (snd (min_kernel_impl h result indice self d keepdim)))
                (output_index idx w keepdim) = IntegralV (int k)
          \<and> (\<forall>j < sizes self ! w. b k \<le> b j) \<and> (\<forall>j<k. b j \<noteq> b k))
      \<and> (\<exists>k < sizes self ! w.
            element_at (fst (snd (max_kernel_impl h result indice self d keepdim)))
                (output_index idx w keepdim) = BoolV (b k)
          \<and> element_at (snd (snd (max_kernel_impl h result indice self d keepdim)))
                (output_index idx w keepdim) = IntegralV (int k)
          \<and> (\<forall>j < sizes self ! w. b j \<le> b k) \<and> (\<forall>j<k. b j \<noteq> b k)))"
  (is "(?T \<longrightarrow> ?A) \<and> ?N \<and> (?H \<longrightarrow> ?Min \<and> ?Max)")
proof -
  have accepted: "?T \<longrightarrow> ?A"
    by (simp add: min_kernel_impl_def max_kernel_impl_def Let_def
        dispatch_all_types_and_complex_and_def)
  have nn: ?N by simp
  have written: "?H \<longrightarrow> ?Min \<and> ?Max"
  proof (intro impI, elim conjE)
    assume t: "scalar_type self = kBool" "scalar_type result = kBool"
        "scalar_type indice = kLong"
      and a: "maybe_wrap_dim d (ndimension self) = Inr w" "0 < ndimension self"
        "length (strides self) = ndimension self"
      and c: "contiguous result" "contiguous indice"
      and i: "idx \<in> set (multi_indices ((sizes self)[w := 1]))"
      and n: "0 < sizes self ! w"
      and e: "\<forall>i < sizes self ! w. element_at self (idx[w := i]) = BoolV (b i)"
    define lane where "lane = (\<lambda>j. load (storage self) (offset_of (strides self) idx + j))"
    let ?n = "sizes self ! w" and ?s = "strides self ! w"
    from t have ty: "scalar_type result = scalar_type self"
      "dispatch_all_types_and_complex_and kBool (scalar_type self)"
      by (simp_all add: dispatch_all_types_and_complex_and_def)
    note k = kernel_lane_elements [OF a ty(1) t(3) ty(2) c i lane_def]
    from e have l: "\<And>i. i < ?n \<Longrightarrow> lane (i * ?s) = BoolV (b i)" by (simp only: k(7))
    then have "\<forall>i<?n. typed kBool (lane (i * ?s)) \<and> \<not> isnan (lane (i * ?s))" by simp
    from lane_extremum [OF n this, of h]
    obtain k1 k2 where k1: "k1 < ?n" "min_scan h ?n lane ?s = (lane (k1 * ?s), k1)"
        "\<forall>j<?n. key_ge (zabs h (lane (j * ?s))) (zabs h (lane (k1 * ?s)))"
        "\<forall>j<k1. zabs h (lane (j * ?s)) \<noteq> zabs h (lane (k1 * ?s))"
      and k2: "k2 < ?n" "max_scan h ?n lane ?s = (lane (k2 * ?s), k2)"
        "\<forall>j<?n. key_le (zabs h (lane (j * ?s))) (zabs h (lane (k2 * ?s)))"
        "\<forall>j<k2. zabs h (lane (j * ?s)) \<noteq> zabs h (lane (k2 * ?s))"
      by blast
    have m1: "\<forall>j<?n. b k1 \<le> b j" "\<forall>j<k1. b j \<noteq> b k1"
    proof -
      show "\<forall>j<?n. b k1 \<le> b j"
      proof (intro allI impI)
        fix j assume j: "j < ?n"
        with k1(3) have "key_ge (zabs h (lane (j * ?s))) (zabs h (lane (k1 * ?s)))" by blast
        then show "b k1 \<le> b j" by (simp add: l [OF j] l [OF k1(1)])
      qed
      show "\<forall>j<k1. b j \<noteq> b k1"
      proof (intro allI impI)
        fix j assume j: "j < k1"
        with k1(1) have jn: "j < ?n" by simp
        from j k1(4) have "zabs h (lane (j * ?s)) \<noteq> zabs h (lane (k1 * ?s))" by blast
        then show "b j \<noteq> b k1" by (simp add: l [OF jn] l [OF k1(1)])
      qed
    qed
    have m2: "\<forall>j<?n. b j \<le> b k2" "\<forall>j<k2. b j \<noteq> b k2"
    proof -
      show "\<forall>j<?n. b j \<le> b k2"
      proof (intro allI impI)
        fix j assume j: "j < ?n"
        with k2(3) have "key_le (zabs h (lane (j * ?s))) (zabs h (lane (k2 * ?s)))" by blast
        then show "b j \<le> b k2" by (simp add: l [OF j] l [OF k2(1)])
      qed
      show "\<forall>j<k2. b j \<noteq> b k2"
      proof (intro allI impI)
        fix j assume j: "j < k2"
        with k2(1) have jn: "j < ?n" by simp
        from j k2(4) have "zabs h (lane (j * ?s)) \<noteq> zabs h (lane (k2 * ?s))" by blast
        then show "b j \<noteq> b k2" by (simp add: l [OF jn] l [OF k2(1)])
      qed
    qed
    have ?Min
      using m1 by (intro exI [of _ k1]) (simp add: k(3,4) k1(1,2) l [OF k1(1)])
    moreover have ?Max
      using m2 by (intro exI [of _ k2]) (simp add: k(5,6) k2(1,2) l [OF k2(1)])
    ultimately show "?Min \<and> ?Max" by (rule conjI)
  qed
  show ?thesis by (rule conjI [OF accepted conjI [OF nn written]])
qed


theorem bool_lanes_witness:
  "fst (min_kernel_impl sample_hypot (fresh_output kBool) (fresh_output kLong) bool_input 0 False)
     = None
   \<and> fst (max_kernel_impl sample_hypot (fresh_output kBool) (fresh_output kLong) bool_input 0 False)
     = None
   \<and> (\<forall>p. \<not> isnan (BoolV p))
   \<and> (\<exists>k<3. element_at (fst (snd (min_kernel_impl sample_hypot (fresh_output kBool)
                (fresh_output kLong) bool_input 0 False))) [] = BoolV (bool_lane k)
          \<and> element_at (snd (snd (min_kernel_impl sample_hypot (fresh_output kBool)
                (fresh_output kLong) bool_input 0 False))) [] = IntegralV (int k)
          \<and> (\<forall>j<3. bool_lane k \<le> bool_lane j) \<and> (\<forall>j<k. bool_lane j \<noteq> bool_lane k))
   \<and> (\<exists>k<3. element_at (fst (snd (max_kernel_impl sample_hypot (fresh_output kBool)
                (fresh_output kLong) bool_input 0 False))) [] = BoolV (bool_lane k)
          \<and> element_at (snd (snd (max_kernel_impl sample_hypot (fresh_output kBool)
                (fresh_output kLong) bool_input 0 False))) [] = IntegralV (int k)
          \<and> (\<forall>j<3. bool_lane j \<le> bool_lane k) \<and> (\<forall>j<k. bool_lane j \<noteq> bool_lane k))"
proof -
  have a: "scalar_type bool_input = kBool \<and> scalar_type (fresh_output kBool) = kBool
      \<and> scalar_type (fresh_output kLong) = kLong
      \<and> maybe_wrap_dim 0 (ndimension bool_input) = Inr 0"
    by (simp add: maybe_wrap_dim_def ndimension_def bool_input_def fresh_output_def)
  have b: "scalar_type bool_input = kBool \<and> scalar_type (fresh_output kBool) = kBool
      \<and> scalar_type (fresh_output kLong) = kLong
      \<and> maybe_wrap_dim 0 (ndimension bool_input) = Inr 0 \<and> 0 < ndimension bool_input
      \<and> length (strides bool_input) = ndimension bool_input
      \<and> contiguous (fresh_output kBool) \<and> contiguous (fresh_output kLong)
      \<and> [0] \<in> set (multi_indices ((sizes bool_input)[0 := 1]))
      \<and> 0 < sizes bool_input ! 0
      \<and> (\<forall>i < sizes bool_input ! 0. element_at bool_input ([0][0 := i]) = BoolV (bool_lane i))"
    by (simp add: maybe_wrap_dim_def ndimension_def bool_input_def fresh_output_def
        contiguous_def all_less_3 element_at_def offset_of_def load_def bool_lane_def)
  note t = bool_lanes [of bool_input "fresh_output kBool" "fresh_output kLong" 0 0
      sample_hypot False "[0]" bool_lane]
  have s: "sizes bool_input ! 0 = 3" "output_index [0] 0 False = []"
    by (simp_all add: bool_input_def output_index_def)
  from t [THEN conjunct1, THEN mp, OF a] t [THEN conjunct2, THEN conjunct2, THEN mp, OF b]
  show ?thesis unfolding s by simp
qed

end
